theory Spec2Isabelle
  imports Main "HOL-Library.Word"
begin

section \<open>The Kafka connector: configuration\<close>

text \<open>
  The connector is one Go file, \<^verbatim>\<open>main.go\<close>. This first part embeds
  \<^verbatim>\<open>buildConnectorConfig\<close>, which reads the process environment.

  \<^item> \<^verbatim>\<open>time.Duration\<close> is an \<^verbatim>\<open>int64\<close> count of nanoseconds: a 64-bit word.
  \<^item> The environment read by \<^verbatim>\<open>os.LookupEnv\<close> is a partial map from names to values.
  \<^item> \<^verbatim>\<open>time.ParseDuration\<close> belongs to the Go standard library; it is a parameter
    of the model, \<open>None\<close> standing for a non-nil error.
  \<^item> \<^verbatim>\<open>log.Fatal\<close> and \<^verbatim>\<open>log.Fatalln\<close> print their operands and call
    \<^verbatim>\<open>os.Exit(1)\<close>: the function then has no result, which is the \<open>Inl\<close> branch of
    a sum, \<open>Fatal\<close> holding the operands.
\<close>

type_synonym Duration = "64 word"

definition Millisecond :: Duration where
  "Millisecond = 1000000"

definition Second :: Duration where
  "Second = 1000 * Millisecond"

record connectorConfig =
  gatewayURL :: string
  upstreamTimeout :: Duration
  topics :: "string list"
  printResponse :: bool
  rebuildInterval :: Duration
  broker :: string

datatype exit = Fatal "string list"

text \<open>
  \<^verbatim>\<open>strings.Split(s, sep)\<close> for a one-byte separator, after the standard library's
  documentation: the substrings between the separators, as many as there are separators
  plus one; a string without separator (also the empty one) gives the one-element list.
\<close>

fun Split :: "string \<Rightarrow> char \<Rightarrow> string list" where
  "Split [] sep = [[]]"
| "Split (c # cs) sep =
     (if c = sep then [] # Split cs sep
      else (case Split cs sep of
              [] \<Rightarrow> [[c]]
            | seg # segs \<Rightarrow> (c # seg) # segs))"

text \<open>
  \<^verbatim>\<open>strings.Join\<close>, the inverse of \<^verbatim>\<open>strings.Split\<close>; the program does not call
  it, it serves to say what \<open>Split\<close> computes.
\<close>

fun Join :: "string list \<Rightarrow> char \<Rightarrow> string" where
  "Join [] sep = []"
| "Join [a] sep = a"
| "Join (a # b # bs) sep = a @ sep # Join (b # bs) sep"

text \<open>
  The body of the \<^verbatim>\<open>range\<close> loop over the segments (lines 187 to 191): a segment
  of positive length is appended to \<^verbatim>\<open>topics\<close>.
\<close>

definition append_topic :: "string list \<Rightarrow> string \<Rightarrow> string list" where
  "append_topic ts t = (if length t > 0 then ts @ [t] else ts)"

definition no_topics_message :: string where
  "no_topics_message =
     ''Provide a list of topics i.e. topics=\"payment_published,slack_joined\"''"

definition buildConnectorConfig ::
    "(string \<Rightarrow> Duration option) \<Rightarrow> (string \<rightharpoonup> string) \<Rightarrow> exit + connectorConfig" where
  "buildConnectorConfig ParseDuration env =
    (let broker0 = (case env ''broker_host'' of Some val \<Rightarrow> val | None \<Rightarrow> ''kafka'');
         topics0 = (case env ''topics'' of
                      Some val \<Rightarrow> foldl append_topic [] (Split val (CHR '',''))
                    | None \<Rightarrow> [])
     in if length topics0 = 0 then Inl (Fatal [no_topics_message])
        else
          let gatewayURL0 = (case env ''gateway_url'' of Some val \<Rightarrow> val
                             | None \<Rightarrow> ''http://gateway:8080'');
              upstreamTimeout0 =
                (case env ''upstream_timeout'' of
                   Some val \<Rightarrow> (case ParseDuration val of
                                  Some parsedVal \<Rightarrow> parsedVal
                                | None \<Rightarrow> Second * 30)
                 | None \<Rightarrow> Second * 30);
              rebuildInterval0 =
                (case env ''rebuild_interval'' of
                   Some val \<Rightarrow> (case ParseDuration val of
                                  Some parsedVal \<Rightarrow> parsedVal
                                | None \<Rightarrow> Second * 3)
                 | None \<Rightarrow> Second * 3)
          in Inr \<lparr> gatewayURL = gatewayURL0,
                   upstreamTimeout = upstreamTimeout0,
                   topics = topics0,
                   printResponse = False,
                   rebuildInterval = rebuildInterval0,
                   broker = broker0 \<rparr>)"

text \<open>
  The struct literal of line 219 names five of the six fields; \<^verbatim>\<open>printResponse\<close> takes
  Go's zero value, \<open>False\<close>.
\<close>

section \<open>The start of the process: waiting for the brokers\<close>

text \<open>
  The loop of \<^verbatim>\<open>main\<close> (lines 44 to 56). \<^verbatim>\<open>sarama.NewClient\<close> is a library call:
  the model takes the results of its successive calls as a function of the call's
  number, a result being the pair of a client handle (\<open>None\<close> for \<^verbatim>\<open>nil\<close>) and an
  error (\<open>None\<close> for \<^verbatim>\<open>nil\<close>). The loop may run forever, so it is a partial
  function into \<open>option\<close>: \<open>None\<close> is the run that never leaves the loop. What the
  loop does besides is recorded as a list of events.
\<close>

record attempt =
  client :: "nat option"
  err :: "string option"

datatype main_event =
    ClientClose nat
  | PrintWait string "string list"
  | Sleep Duration

definition brokers :: "connectorConfig \<Rightarrow> string list" where
  "brokers config = [broker config @ '':9092'']"

definition failed_attempt :: "connectorConfig \<Rightarrow> attempt \<Rightarrow> main_event list" where
  "failed_attempt config a =
     (case client a of Some h \<Rightarrow> [ClientClose h] | None \<Rightarrow> [])
     @ [PrintWait (broker config) (brokers config), Sleep (1 * Second)]"

partial_function (option) connect_loop ::
    "connectorConfig \<Rightarrow> (nat \<Rightarrow> attempt) \<Rightarrow> nat \<Rightarrow> main_event list
      \<Rightarrow> (nat \<times> main_event list) option" where
  "connect_loop config NewClient n tr =
     (case (client (NewClient n), err (NewClient n)) of
        (Some h, None) \<Rightarrow> Some (h, tr)
      | _ \<Rightarrow> connect_loop config NewClient (Suc n) (tr @ failed_attempt config (NewClient n)))"

section \<open>The set-up of the consumer\<close>

text \<open>
  \<^verbatim>\<open>makeClient\<close> (lines 163 to 176) and the values \<^verbatim>\<open>makeConsumer\<close> builds before
  its loops start (lines 71 to 92). \<^verbatim>\<open>cluster.NewConsumer\<close> is a library call; its
  error, if any, is a parameter.
\<close>

record httpClient =
  dialTimeout :: Duration
  keepAlive :: Duration
  maxIdleConns :: int
  maxIdleConnsPerHost :: int
  idleConnTimeout :: Duration

definition makeClient :: "Duration \<Rightarrow> httpClient" where
  "makeClient timeout =
     \<lparr> dialTimeout = timeout,
       keepAlive = 10 * Second,
       maxIdleConns = 100,
       maxIdleConnsPerHost = 100,
       idleConnTimeout = 120 * Millisecond \<rparr>"

record FunctionLookupBuilder =
  GatewayURL :: string
  Client :: httpClient

record consumerSetup =
  group :: string
  boundTopics :: "string list"
  c :: httpClient
  lookupBuilder :: FunctionLookupBuilder
  ticker :: Duration

definition makeConsumer_setup :: "connectorConfig \<Rightarrow> string option \<Rightarrow> exit + consumerSetup" where
  "makeConsumer_setup config NewConsumer_err =
     (case NewConsumer_err of
        Some e \<Rightarrow> Inl (Fatal [''Fail to create Kafka consumer: '', e])
      | None \<Rightarrow>
          Inr \<lparr> group = ''faas-kafka-queue-workers'',
                boundTopics = topics config,
                c = makeClient (upstreamTimeout config),
                lookupBuilder = \<lparr> GatewayURL = gatewayURL config,
                                  Client = makeClient (rebuildInterval config) \<rparr>,
                ticker = Second * 3 \<rparr>)"

section \<open>The topic map\<close>

text \<open>
  The package \<^verbatim>\<open>types\<close> of this repository (\<^verbatim>\<open>NewTopicMap\<close>, \<^verbatim>\<open>TopicMap.Sync\<close>,
  \<^verbatim>\<open>TopicMap.Match\<close> and \<^verbatim>\<open>FunctionLookupBuilder.Build\<close>) is not among the sources;
  \<^verbatim>\<open>main.go\<close> only calls it. Its data and operations are written here after the
  spec. \<^verbatim>\<open>main.go\<close> walks the result of \<^verbatim>\<open>Match\<close> with \<^verbatim>\<open>range\<close>, so a set of
  subscribers is a list without repetition, in the order of first occurrence.
\<close>

text \<open>
  Modelled from the spec: the type of the records that \<^verbatim>\<open>FunctionLookupBuilder.Build\<close>
  returns is missing. A subscription record is a function identifier and a topic.
\<close>

record SubscriptionRecord =
  functionIdentifier :: string
  topic :: string

text \<open>
  Modelled from the spec: the type \<^verbatim>\<open>TopicMap\<close> is missing. The index is a mapping from
  a topic to the set of the functions subscribed to it.
\<close>

type_synonym TopicMap = "string \<rightharpoonup> string list"

text \<open>
  Modelled from the spec: \<^verbatim>\<open>NewTopicMap\<close> is missing. The index is empty at
  construction.
\<close>

definition NewTopicMap :: TopicMap where
  "NewTopicMap = Map.empty"

text \<open>
  Modelled from the spec: the grouping by topic within \<^verbatim>\<open>TopicMap.Sync\<close> is missing.
  A record adds its function to the subscribers of its topic, unless it is among them.
\<close>

definition add_subscription :: "TopicMap \<Rightarrow> SubscriptionRecord \<Rightarrow> TopicMap" where
  "add_subscription m r =
     (case m (topic r) of
        None \<Rightarrow> m(topic r \<mapsto> [functionIdentifier r])
      | Some fs \<Rightarrow>
          if functionIdentifier r \<in> set fs then m
          else m(topic r \<mapsto> fs @ [functionIdentifier r]))"

text \<open>
  Modelled from the spec: \<^verbatim>\<open>TopicMap.Sync\<close> is missing. It builds a brand-new mapping
  from the list of records, grouping by topic, and puts it in the place of the current
  index, of which nothing is kept.
\<close>

definition Sync :: "TopicMap \<Rightarrow> SubscriptionRecord list \<Rightarrow> TopicMap" where
  "Sync current subs = foldl add_subscription Map.empty subs"

text \<open>
  Modelled from the spec: \<^verbatim>\<open>TopicMap.Match\<close> is missing. It returns the subscribers of
  the topic in the current index, none when the topic has no entry.
\<close>

definition Match :: "TopicMap \<Rightarrow> string \<Rightarrow> string list" where
  "Match current t = (case current t of None \<Rightarrow> [] | Some fs \<Rightarrow> fs)"

section \<open>Dispatch of one message\<close>

text \<open>
  The closure \<^verbatim>\<open>mcb\<close> (lines 106 to 141). A consumed message has the fields of
  \<^verbatim>\<open>sarama.ConsumerMessage\<close> that the program reads; byte slices are lists of 8-bit
  words.

  The gateway is outside the program. \<^verbatim>\<open>http.NewRequest\<close> returns \<^verbatim>\<open>nil\<close> and an
  error for a URL that does not parse, and the program drops that error (line 115):
  \<open>url_ok\<close> tells which URLs parse. \<^verbatim>\<open>c.Do\<close> acts on the world outside, of some
  type \<open>'w\<close>, and gives a transport error or a response; the body of a response,
  when there is one, is what \<^verbatim>\<open>ioutil.ReadAll\<close> yields for it: the bytes read and an
  error or none.

  What the program does is a list of events, in the order of the calls. The deferred
  \<^verbatim>\<open>Close\<close> calls of lines 116 and 124 act on no value that the program reads again
  and are left out.
\<close>

type_synonym byte = "8 word"

record ConsumerMessage =
  Topic :: string
  Partition :: "32 word"
  Offset :: "64 word"
  Value :: "byte list"

record Request =
  Method :: string
  URL :: string
  Body :: "byte list"

datatype ReadAll = ReadAll (bytesOut: "byte list") (readErr: "string option")

record Response =
  StatusCode :: int
  ResBody :: "ReadAll option"

datatype DoResult = DoErr string | DoRes Response

record 'w net =
  url_ok :: "string \<Rightarrow> bool"
  Do :: "'w \<Rightarrow> Request \<Rightarrow> DoResult \<times> 'w"

datatype event =
    LogBinding "string list"
  | LogSyncing
  | LogInvoke string
  | HttpDo Request
  | LogInvalidResponse string
  | LogErrorReadingBody
  | LogResponse int string "string option"
  | PrintReceived int ConsumerMessage
  | MarkOffset ConsumerMessage string
  | PrintConsumerError string
  | PrintRebalanced string

text \<open>
  How a call of \<^verbatim>\<open>mcb\<close> ends: it returns, or it panics on the \<^verbatim>\<open>nil\<close> request at
  \<^verbatim>\<open>httpReq.Body\<close> (line 116).
\<close>

datatype ending = Returns | Panics

definition string_of_bytes :: "byte list \<Rightarrow> string" where
  "string_of_bytes bs = map (\<lambda>b. char_of (unat b)) bs"

text \<open>Lines 123 to 137: what is logged for a response.\<close>

definition response_log :: "connectorConfig \<Rightarrow> string \<Rightarrow> Response \<Rightarrow> event list" where
  "response_log config matchedFunction res =
     (case ResBody res of
        None \<Rightarrow> []
      | Some body \<Rightarrow>
          (case readErr body of Some e \<Rightarrow> [LogErrorReadingBody] | None \<Rightarrow> [])
          @ (let stringOutput = string_of_bytes (bytesOut body)
             in if printResponse config
                then [LogResponse (StatusCode res) matchedFunction (Some stringOutput)]
                else [LogResponse (StatusCode res) matchedFunction None]))"

text \<open>
  The \<^verbatim>\<open>for\<close> loop of lines 110 to 139 over the matched functions. The
  \<^verbatim>\<open>return\<close> of line 121 leaves \<^verbatim>\<open>mcb\<close>, and so the loop.
\<close>

fun invoke_matched ::
    "connectorConfig \<Rightarrow> 'w net \<Rightarrow> ConsumerMessage \<Rightarrow> string list \<Rightarrow> 'w
      \<Rightarrow> ending \<times> 'w \<times> event list" where
  "invoke_matched config net msg [] w = (Returns, w, [])"
| "invoke_matched config net msg (matchedFunction # rest) w =
     (let url = gatewayURL config @ ''/function/'' @ matchedFunction
      in if \<not> url_ok net url then (Panics, w, [LogInvoke matchedFunction])
         else
           let httpReq = \<lparr> Method = ''POST'', URL = url, Body = Value msg \<rparr>
           in (case Do net w httpReq of
                 (DoErr doErr, w1) \<Rightarrow>
                   (Returns, w1,
                    [LogInvoke matchedFunction, HttpDo httpReq, LogInvalidResponse doErr])
               | (DoRes res, w1) \<Rightarrow>
                   (case invoke_matched config net msg rest w1 of
                      (e, w2, evs) \<Rightarrow>
                        (e, w2,
                         [LogInvoke matchedFunction, HttpDo httpReq]
                         @ response_log config matchedFunction res @ evs))))"

definition mcb ::
    "connectorConfig \<Rightarrow> 'w net \<Rightarrow> TopicMap \<Rightarrow> ConsumerMessage \<Rightarrow> 'w
      \<Rightarrow> ending \<times> 'w \<times> event list" where
  "mcb config net current msg w =
     (if length (Value msg) > 0
      then invoke_matched config net msg (Match current (Topic msg)) w
      else (Returns, w, []))"

section \<open>The two loops of the consumer\<close>

text \<open>
  \<^verbatim>\<open>makeConsumer\<close> runs two loops over one topic map: the goroutine of lines 94 to
  104, woken by the ticker, and the \<^verbatim>\<open>select\<close> loop of lines 145 to 160. The state
  of the process is the topic map, the counter \<^verbatim>\<open>num\<close>, the world outside, the
  events so far, and whether the process still runs. The inputs are what the loops wait
  for: a tick, with the result of \<^verbatim>\<open>lookupBuilder.Build\<close> at that tick (an error or
  the records), a receive on the channel of messages (\<open>None\<close> when the channel is
  closed and \<^verbatim>\<open>ok\<close> is false), an error of the consumer, a notification.

  \<^verbatim>\<open>mcb\<close> reads the topic map once, at line 109, so a tick that falls within the
  dispatch of a message has the effect on the map of a tick just after the lookup; the
  model takes ticks between two turns of the \<^verbatim>\<open>select\<close> loop. A tick at which
  \<^verbatim>\<open>Build\<close> fails ends the process wherever the \<^verbatim>\<open>select\<close> loop stands; in the
  model it ends between two turns, and the events of a process that ended within a
  dispatch are a prefix of the events of the model. \<^verbatim>\<open>num\<close> never leaves the interval
  from 0 to \<^verbatim>\<open>math.MaxInt32\<close>, where Go's \<^verbatim>\<open>%\<close> is \<open>mod\<close>.
\<close>

datatype status = Running | Exited exit | Panicked

record 'w process =
  topicMap :: TopicMap
  num :: int
  world :: 'w
  trace :: "event list"
  status :: status

datatype input =
    Tick "string + SubscriptionRecord list"
  | Messages "ConsumerMessage option"
  | Errors string
  | Notifications string

definition MaxInt32 :: int where
  "MaxInt32 = 2147483647"

definition refresh :: "string + SubscriptionRecord list \<Rightarrow> 'w process \<Rightarrow> 'w process" where
  "refresh built p =
     (case built of
        Inl e \<Rightarrow> p\<lparr> status := Exited (Fatal [e]) \<rparr>
      | Inr lookups \<Rightarrow>
          p\<lparr> trace := trace p @ [LogSyncing],
             topicMap := Sync (topicMap p) lookups \<rparr>)"

definition receive ::
    "connectorConfig \<Rightarrow> 'w net \<Rightarrow> ConsumerMessage option \<Rightarrow> 'w process \<Rightarrow> 'w process" where
  "receive config net received p =
     (case received of
        None \<Rightarrow> p
      | Some msg \<Rightarrow>
          let num1 = (num p + 1) mod MaxInt32
          in (case mcb config net (topicMap p) msg (world p) of
                (Panics, w, evs) \<Rightarrow>
                  p\<lparr> num := num1, world := w,
                     trace := trace p @ [PrintReceived num1 msg] @ evs,
                     status := Panicked \<rparr>
              | (Returns, w, evs) \<Rightarrow>
                  p\<lparr> num := num1, world := w,
                     trace := trace p @ [PrintReceived num1 msg] @ evs
                              @ [MarkOffset msg []] \<rparr>))"

fun step :: "connectorConfig \<Rightarrow> 'w net \<Rightarrow> input \<Rightarrow> 'w process \<Rightarrow> 'w process" where
  "step config net (Tick built) p = refresh built p"
| "step config net (Messages received) p = receive config net received p"
| "step config net (Errors e) p = p\<lparr> trace := trace p @ [PrintConsumerError e] \<rparr>"
| "step config net (Notifications ntf) p = p\<lparr> trace := trace p @ [PrintRebalanced ntf] \<rparr>"

text \<open>A process that has exited or panicked takes no further input.\<close>

fun run :: "connectorConfig \<Rightarrow> 'w net \<Rightarrow> input list \<Rightarrow> 'w process \<Rightarrow> 'w process" where
  "run config net [] p = p"
| "run config net (i # ins) p =
     (if status p = Running then run config net ins (step config net i p) else p)"

text \<open>
  \<^verbatim>\<open>makeConsumer\<close> as a whole: the binding is logged (line 74), a failure of
  \<^verbatim>\<open>cluster.NewConsumer\<close> is fatal (line 78), the topic map starts empty (line 85),
  \<^verbatim>\<open>num\<close> at 0 (line 143).
\<close>

definition makeConsumer ::
    "connectorConfig \<Rightarrow> 'w net \<Rightarrow> string option \<Rightarrow> input list \<Rightarrow> 'w \<Rightarrow> 'w process" where
  "makeConsumer config net NewConsumer_err ins w =
     (case makeConsumer_setup config NewConsumer_err of
        Inl x \<Rightarrow>
          \<lparr> topicMap = NewTopicMap, num = 0, world = w,
            trace = [LogBinding (topics config)], status = Exited x \<rparr>
      | Inr s \<Rightarrow>
          run config net ins
            \<lparr> topicMap = NewTopicMap, num = 0, world = w,
              trace = [LogBinding (topics config)], status = Running \<rparr>)"

section \<open>Reading the events of a run\<close>

text \<open>
  The messages that a list of events reports as received (line 150) and as marked
  (line 153), in the order of the events; the events of the dispatch of a message, which
  are those of \<^verbatim>\<open>mcb\<close>; the log line of line 133, which prints the body of a response;
  the messages that a list of inputs delivers.
\<close>

fun received_of :: "event \<Rightarrow> ConsumerMessage list" where
  "received_of (PrintReceived n msg) = [msg]"
| "received_of _ = []"

fun marked_of :: "event \<Rightarrow> ConsumerMessage list" where
  "marked_of (MarkOffset msg metadata) = [msg]"
| "marked_of _ = []"

definition received :: "event list \<Rightarrow> ConsumerMessage list" where
  "received tr = concat (map received_of tr)"

definition marked :: "event list \<Rightarrow> ConsumerMessage list" where
  "marked tr = concat (map marked_of tr)"

fun is_dispatch :: "event \<Rightarrow> bool" where
  "is_dispatch (LogInvoke f) = True"
| "is_dispatch (HttpDo req) = True"
| "is_dispatch (LogInvalidResponse e) = True"
| "is_dispatch LogErrorReadingBody = True"
| "is_dispatch (LogResponse sc f body) = True"
| "is_dispatch _ = False"

fun prints_body :: "event \<Rightarrow> bool" where
  "prints_body (LogResponse sc f (Some body)) = True"
| "prints_body _ = False"

fun delivered_of :: "input \<Rightarrow> ConsumerMessage list" where
  "delivered_of (Messages (Some msg)) = [msg]"
| "delivered_of _ = []"

definition delivered :: "input list \<Rightarrow> ConsumerMessage list" where
  "delivered ins = concat (map delivered_of ins)"

fun requests_of :: "event \<Rightarrow> Request list" where
  "requests_of (HttpDo req) = [req]"
| "requests_of _ = []"

definition requests :: "event list \<Rightarrow> Request list" where
  "requests tr = concat (map requests_of tr)"

text \<open>
  An event of the dispatch of the message \<open>msg\<close>: an event of a dispatch whose
  request, if it is a call of \<^verbatim>\<open>c.Do\<close>, has the payload of \<open>msg\<close> as its body.
\<close>

fun dispatch_of :: "ConsumerMessage \<Rightarrow> event \<Rightarrow> bool" where
  "dispatch_of msg (HttpDo req) = (Body req = Value msg)"
| "dispatch_of msg ev = is_dispatch ev"

text \<open>
  The order of dispatch and mark in a list of events: where a message is marked, it is
  the one message received and not yet marked, and where an event of a dispatch stands,
  just one message is received and not yet marked, and the event belongs to the dispatch
  of that message.
\<close>

definition ordered :: "event list \<Rightarrow> bool" where
  "ordered tr =
     (\<forall>pre ev post. tr = pre @ ev # post \<longrightarrow>
        (\<forall>msg metadata. ev = MarkOffset msg metadata \<longrightarrow> received pre = marked pre @ [msg])
        \<and> (is_dispatch ev \<longrightarrow>
             (\<exists>msg. received pre = marked pre @ [msg] \<and> dispatch_of msg ev)))"

section \<open>A small deployment\<close>

text \<open>
  Concrete data for the closed statements below: the configuration that
  \<^verbatim>\<open>buildConnectorConfig\<close> gives for the environment \<^verbatim>\<open>topics=orders\<close>; two
  functions \<^verbatim>\<open>A\<close> and \<^verbatim>\<open>B\<close> subscribed to \<^verbatim>\<open>orders\<close>; a gateway that refuses
  the connection for \<^verbatim>\<open>A\<close> and answers 200 with the body \<^verbatim>\<open>ok\<close> for every other
  function, the world being the number of calls of \<^verbatim>\<open>c.Do\<close> so far; three messages.
\<close>

definition orders_config :: connectorConfig where
  "orders_config =
     \<lparr> gatewayURL = ''http://gateway:8080'',
       upstreamTimeout = 30000000000,
       topics = [''orders''],
       printResponse = False,
       rebuildInterval = 3000000000,
       broker = ''kafka'' \<rparr>"

definition orders_subs :: "SubscriptionRecord list" where
  "orders_subs =
     [\<lparr> functionIdentifier = ''A'', topic = ''orders'' \<rparr>,
      \<lparr> functionIdentifier = ''B'', topic = ''orders'' \<rparr>]"

definition gateway_refusing_A :: "nat net" where
  "gateway_refusing_A =
     \<lparr> url_ok = (\<lambda>u. True),
       Do = (\<lambda>calls req.
               if URL req = ''http://gateway:8080/function/A''
               then (DoErr ''connection refused'', calls + 1)
               else (DoRes \<lparr> StatusCode = 200,
                             ResBody = Some (ReadAll [111, 107] None) \<rparr>,
                     calls + 1)) \<rparr>"

definition order_msg :: ConsumerMessage where
  "order_msg = \<lparr> Topic = ''orders'', Partition = 0, Offset = 41, Value = [1, 2] \<rparr>"

definition empty_msg :: ConsumerMessage where
  "empty_msg = \<lparr> Topic = ''orders'', Partition = 0, Offset = 42, Value = [] \<rparr>"

definition shipping_msg :: ConsumerMessage where
  "shipping_msg = \<lparr> Topic = ''shipping'', Partition = 3, Offset = 7, Value = [9] \<rparr>"

definition orders_inputs :: "input list" where
  "orders_inputs =
     [Tick (Inr orders_subs), Messages (Some order_msg), Errors ''broker error'',
      Messages (Some empty_msg), Messages None, Messages (Some shipping_msg)]"

definition started :: "nat process" where
  "started =
     \<lparr> topicMap = NewTopicMap, num = 0, world = 0, trace = [], status = Running \<rparr>"

text \<open>
  The same gateway behind a URL parser that refuses the URL of a function named
  \<^verbatim>\<open>%zz\<close>, as \<^verbatim>\<open>url.Parse\<close> does for its escape, and accepts every other URL; the
  records of a registry that holds \<^verbatim>\<open>B\<close> and such a function for \<^verbatim>\<open>orders\<close>; the
  inputs of a run that refreshes from these records and then receives two messages.
\<close>

definition gateway_strict :: "nat net" where
  "gateway_strict =
     gateway_refusing_A \<lparr> url_ok := (\<lambda>u. u \<noteq> ''http://gateway:8080/function/%zz'') \<rparr>"

definition escape_subs :: "SubscriptionRecord list" where
  "escape_subs =
     [\<lparr> functionIdentifier = ''B'', topic = ''orders'' \<rparr>,
      \<lparr> functionIdentifier = ''%zz'', topic = ''orders'' \<rparr>]"

definition escape_inputs :: "input list" where
  "escape_inputs =
     [Tick (Inr escape_subs), Messages (Some order_msg), Messages (Some shipping_msg)]"

section \<open>Properties of the configuration\<close>

subsection \<open>\<open>Split\<close> and the loop over its segments\<close>

text \<open>
  \<open>Split\<close> never gives the empty list, no segment holds the separator, and joining
  the segments with the separator gives the string back: the three facts that determine
  the result of \<^verbatim>\<open>strings.Split\<close>.
\<close>

lemma Split_nonempty: "Split s sep \<noteq> []"
  by (induction s) (auto split: list.splits)

lemma Split_no_sep: "seg \<in> set (Split s sep) \<Longrightarrow> sep \<notin> set seg"
  by (induction s arbitrary: seg) (auto split: list.splits if_splits)

lemma Join_Split: "Join (Split s sep) sep = s"
proof (induction s)
  case Nil
  show ?case by simp
next
  case (Cons ch s)
  obtain seg segs where sp: "Split s sep = seg # segs"
    using Split_nonempty [of s sep] by (cases "Split s sep") auto
  show ?case
  proof (cases "ch = sep")
    case True
    with Cons sp show ?thesis by simp
  next
    case False
    with Cons sp show ?thesis by (cases segs) auto
  qed
qed

text \<open>The loop of lines 187 to 191 keeps the segments of positive length, in order.\<close>

lemma foldl_append_topic: "foldl append_topic acc segs = acc @ filter (\<lambda>t. t \<noteq> []) segs"
  by (induction segs arbitrary: acc) (auto simp: append_topic_def)

lemma Second_ns: "Second = 1000000000"
  by (simp add: Second_def Millisecond_def)

subsection \<open>The list of topics\<close>

text \<open>
  Claim C10. \<^verbatim>\<open>buildConnectorConfig\<close> splits the value of \<^verbatim>\<open>topics\<close> on commas and
  drops the empty segments: the list of topics of the configuration is the list of the
  non-empty segments, in their order. When the variable is not set, or when every segment
  is empty (as for the value \<^verbatim>\<open>,\<close>), the start fails with \<^verbatim>\<open>log.Fatal\<close>. The
  segments are those of \<^verbatim>\<open>strings.Split\<close>: they hold no comma and, joined with
  commas, give the value back.
\<close>

theorem topics_are_nonempty_segments:
  "(env ''topics'' = None \<longrightarrow>
      buildConnectorConfig pd env = Inl (Fatal [no_topics_message]))
   \<and> (\<forall>val. env ''topics'' = Some val \<longrightarrow>
        Join (Split val (CHR '','')) (CHR '','') = val
        \<and> (\<forall>seg \<in> set (Split val (CHR '','')). CHR '','' \<notin> set seg)
        \<and> (if \<forall>seg \<in> set (Split val (CHR '','')). seg = []
            then buildConnectorConfig pd env = Inl (Fatal [no_topics_message])
            else \<exists>config. buildConnectorConfig pd env = Inr config
                   \<and> topics config = filter (\<lambda>seg. seg \<noteq> []) (Split val (CHR '',''))))"
proof (intro conjI allI impI)
  assume "env ''topics'' = None"
  then show "buildConnectorConfig pd env = Inl (Fatal [no_topics_message])"
    by (simp add: buildConnectorConfig_def)
next
  fix val
  show "Join (Split val (CHR '','')) (CHR '','') = val"
    by (rule Join_Split)
next
  fix val
  show "\<forall>seg \<in> set (Split val (CHR '','')). CHR '','' \<notin> set seg"
    using Split_no_sep by blast
next
  fix val
  assume v: "env ''topics'' = Some val"
  let ?segs = "Split val (CHR '','')"
  show "if \<forall>seg \<in> set ?segs. seg = []
        then buildConnectorConfig pd env = Inl (Fatal [no_topics_message])
        else \<exists>config. buildConnectorConfig pd env = Inr config
               \<and> topics config = filter (\<lambda>seg. seg \<noteq> []) ?segs"
  proof (cases "\<forall>seg \<in> set ?segs. seg = []")
    case True
    then have "filter (\<lambda>seg. seg \<noteq> []) ?segs = []"
      by (simp add: filter_empty_conv)
    with v True show ?thesis
      by (simp add: buildConnectorConfig_def foldl_append_topic)
  next
    case False
    then have "filter (\<lambda>seg. seg \<noteq> []) ?segs \<noteq> []"
      by (simp add: filter_empty_conv)
    with v False show ?thesis
      by (simp add: buildConnectorConfig_def foldl_append_topic Let_def)
  qed
qed

theorem topics_are_nonempty_segments_witness:
  "(\<exists>config. buildConnectorConfig (\<lambda>s. None) [''topics'' \<mapsto> '',orders,,payments,''] = Inr config
      \<and> topics config = [''orders'', ''payments''])
   \<and> buildConnectorConfig (\<lambda>s. None) [''topics'' \<mapsto> '',''] = Inl (Fatal [no_topics_message])
   \<and> buildConnectorConfig (\<lambda>s. None) Map.empty = Inl (Fatal [no_topics_message])"
  using topics_are_nonempty_segments [of "[''topics'' \<mapsto> '',orders,,payments,'']" "\<lambda>s. None"]
    topics_are_nonempty_segments [of "[''topics'' \<mapsto> '','']" "\<lambda>s. None"]
    topics_are_nonempty_segments [of "Map.empty" "\<lambda>s. None"]
  by simp

subsection \<open>Durations that do not parse\<close>

text \<open>
  Claim C8. When \<^verbatim>\<open>upstream_timeout\<close> (or \<^verbatim>\<open>rebuild_interval\<close>) is set to a string
  that \<^verbatim>\<open>time.ParseDuration\<close> rejects, \<^verbatim>\<open>buildConnectorConfig\<close> does what it does
  when the variable is not set: a configuration it returns has the default, 30 seconds
  (or 3 seconds), in nanoseconds below. The parse error is nowhere in the result: the
  only failure of \<^verbatim>\<open>buildConnectorConfig\<close> is the one of the empty list of topics.
\<close>

theorem unparsable_duration_keeps_default:
  "(\<forall>val. env ''upstream_timeout'' = Some val \<and> ParseDuration val = None \<longrightarrow>
      buildConnectorConfig ParseDuration env
        = buildConnectorConfig ParseDuration (env(''upstream_timeout'' := None))
      \<and> (\<forall>config. buildConnectorConfig ParseDuration env = Inr config \<longrightarrow>
            upstreamTimeout config = 30000000000))
   \<and> (\<forall>val. env ''rebuild_interval'' = Some val \<and> ParseDuration val = None \<longrightarrow>
      buildConnectorConfig ParseDuration env
        = buildConnectorConfig ParseDuration (env(''rebuild_interval'' := None))
      \<and> (\<forall>config. buildConnectorConfig ParseDuration env = Inr config \<longrightarrow>
            rebuildInterval config = 3000000000))
   \<and> (\<forall>x. buildConnectorConfig ParseDuration env = Inl x \<longrightarrow>
         x = Fatal [no_topics_message]
         \<and> (\<forall>val. env ''topics'' = Some val \<longrightarrow>
               (\<forall>seg \<in> set (Split val (CHR '','')). seg = [])))"
proof (intro conjI allI impI)
  fix val
  assume a: "env ''upstream_timeout'' = Some val \<and> ParseDuration val = None"
  then show "buildConnectorConfig ParseDuration env
        = buildConnectorConfig ParseDuration (env(''upstream_timeout'' := None))"
    by (simp add: buildConnectorConfig_def Let_def)
  fix config
  assume "buildConnectorConfig ParseDuration env = Inr config"
  with a show "upstreamTimeout config = 30000000000"
    by (auto simp: buildConnectorConfig_def Let_def Second_ns split: if_splits)
next
  fix val
  assume a: "env ''rebuild_interval'' = Some val \<and> ParseDuration val = None"
  then show "buildConnectorConfig ParseDuration env
        = buildConnectorConfig ParseDuration (env(''rebuild_interval'' := None))"
    by (simp add: buildConnectorConfig_def Let_def)
  fix config
  assume "buildConnectorConfig ParseDuration env = Inr config"
  with a show "rebuildInterval config = 3000000000"
    by (auto simp: buildConnectorConfig_def Let_def Second_ns split: if_splits)
next
  fix x
  assume f: "buildConnectorConfig ParseDuration env = Inl x"
  then show "x = Fatal [no_topics_message]"
    by (auto simp: buildConnectorConfig_def Let_def split: if_splits)
  fix val
  assume "env ''topics'' = Some val"
  with f have "filter (\<lambda>t. t \<noteq> []) (Split val (CHR '','')) = []"
    by (auto simp: buildConnectorConfig_def Let_def foldl_append_topic split: if_splits)
  then show "\<forall>seg \<in> set (Split val (CHR '','')). seg = []"
    by (simp add: filter_empty_conv)
qed

theorem unparsable_duration_keeps_default_witness:
  "(\<exists>config. buildConnectorConfig (\<lambda>s. None)
        [''topics'' \<mapsto> ''orders'', ''upstream_timeout'' \<mapsto> ''soon'',
         ''rebuild_interval'' \<mapsto> ''3''] = Inr config
      \<and> upstreamTimeout config = 30000000000 \<and> rebuildInterval config = 3000000000)
   \<and> buildConnectorConfig (\<lambda>s. None) [''upstream_timeout'' \<mapsto> ''soon'']
       = Inl (Fatal [no_topics_message])"
proof -
  let ?env = "[''topics'' \<mapsto> ''orders'', ''upstream_timeout'' \<mapsto> ''soon'',
               ''rebuild_interval'' \<mapsto> ''3'']"
  let ?pd = "\<lambda>s::string. None :: Duration option"
  obtain config where c: "buildConnectorConfig ?pd ?env = Inr config"
    by (simp add: buildConnectorConfig_def append_topic_def)
  have u: "?env ''upstream_timeout'' = Some ''soon'' \<and> ?pd ''soon'' = None"
    by simp
  have r: "?env ''rebuild_interval'' = Some ''3'' \<and> ?pd ''3'' = None"
    by simp
  from unparsable_duration_keeps_default [of ?env ?pd] u c
  have 1: "upstreamTimeout config = 30000000000"
    by blast
  from unparsable_duration_keeps_default [of ?env ?pd] r c
  have 2: "rebuildInterval config = 3000000000"
    by blast
  obtain x where x: "buildConnectorConfig ?pd [''upstream_timeout'' \<mapsto> ''soon''] = Inl x"
    by (simp add: buildConnectorConfig_def)
  from unparsable_duration_keeps_default [of "[''upstream_timeout'' \<mapsto> ''soon'']" ?pd] x
  have "x = Fatal [no_topics_message]"
    by blast
  with c 1 2 x show ?thesis by simp
qed

subsection \<open>The period of the refresh ticker\<close>

text \<open>
  Claim C2 says that the ticker of the refresh has the period given by
  \<^verbatim>\<open>rebuild_interval\<close>. With \<^verbatim>\<open>rebuild_interval\<close> set to \<^verbatim>\<open>10s\<close>, which
  \<^verbatim>\<open>time.ParseDuration\<close> reads as 10 seconds, the configuration holds 10 seconds, but
  the ticker of line 92 has the period of 3 seconds, and the 10 seconds are the dial
  timeout of the HTTP client of the lookup builder (line 89).
\<close>

theorem ticker_ignores_rebuild_interval:
  "\<exists>config s.
     buildConnectorConfig (\<lambda>v. if v = ''10s'' then Some (10 * Second) else None)
       [''topics'' \<mapsto> ''orders'', ''rebuild_interval'' \<mapsto> ''10s''] = Inr config
     \<and> rebuildInterval config = 10000000000
     \<and> makeConsumer_setup config None = Inr s
     \<and> ticker s = 3000000000
     \<and> dialTimeout (Client (lookupBuilder s)) = 10000000000"
  by (simp add: buildConnectorConfig_def makeConsumer_setup_def makeClient_def
      append_topic_def Second_ns)

section \<open>Properties of the wait for the brokers\<close>

text \<open>
  One turn of the loop: it is left with the handle when the attempt gives a client and
  no error, and goes on with the events of a failed attempt otherwise.
\<close>

lemma connect_loop_success:
  "client (NewClient n) = Some h \<Longrightarrow> err (NewClient n) = None \<Longrightarrow>
     connect_loop config NewClient n tr = Some (h, tr)"
  by (subst connect_loop.simps) simp

lemma connect_loop_failure:
  "\<not> (client (NewClient n) \<noteq> None \<and> err (NewClient n) = None) \<Longrightarrow>
     connect_loop config NewClient n tr
       = connect_loop config NewClient (Suc n) (tr @ failed_attempt config (NewClient n))"
  by (subst connect_loop.simps) (auto split: option.splits)

lemma connect_loop_first_success:
  "\<forall>i. n \<le> i \<and> i < n + k \<longrightarrow> \<not> (client (NewClient i) \<noteq> None \<and> err (NewClient i) = None) \<Longrightarrow>
   client (NewClient (n + k)) = Some h \<Longrightarrow> err (NewClient (n + k)) = None \<Longrightarrow>
   connect_loop config NewClient n tr
     = Some (h, tr @ concat (map (\<lambda>i. failed_attempt config (NewClient i)) [n..<n + k]))"
proof (induction k arbitrary: n tr)
  case 0
  then show ?case by (simp add: connect_loop_success)
next
  case (Suc k)
  have f: "\<not> (client (NewClient n) \<noteq> None \<and> err (NewClient n) = None)"
    using Suc.prems(1) by simp
  have "connect_loop config NewClient (Suc n) (tr @ failed_attempt config (NewClient n))
      = Some (h, (tr @ failed_attempt config (NewClient n))
               @ concat (map (\<lambda>i. failed_attempt config (NewClient i)) [Suc n..<Suc n + k]))"
    using Suc.prems by (intro Suc.IH) auto
  moreover have "[n..<n + Suc k] = n # [Suc n..<Suc n + k]"
    by (simp add: upt_conv_Cons)
  ultimately show ?case
    by (simp add: connect_loop_failure [of NewClient n, OF f])
qed

text \<open>
  The loop is left only at an attempt that gives a client and no error: by the
  induction rule of the partial function.
\<close>

lemma connect_loop_returns:
  assumes "connect_loop config NewClient n tr = Some r"
  shows "\<exists>i\<ge>n. client (NewClient i) \<noteq> None \<and> err (NewClient i) = None"
proof (rule connect_loop.raw_induct
    [where P = "\<lambda>config NewClient n tr r.
                  \<exists>i\<ge>n. client (NewClient i) \<noteq> None \<and> err (NewClient i) = None",
     OF _ assms])
  fix f :: "connectorConfig \<Rightarrow> (nat \<Rightarrow> attempt) \<Rightarrow> nat \<Rightarrow> main_event list
      \<Rightarrow> (nat \<times> main_event list) option"
  fix config NewClient n tr r
  assume IH: "\<And>c N m t y. f c N m t = Some y \<Longrightarrow>
                \<exists>i\<ge>m. client (N i) \<noteq> None \<and> err (N i) = None"
  assume unfolded:
    "(case (client (NewClient n), err (NewClient n)) of
        (None, b) \<Rightarrow> f config NewClient (Suc n) (tr @ failed_attempt config (NewClient n))
      | (Some h, None) \<Rightarrow> Some (h, tr)
      | (Some h, Some a) \<Rightarrow>
          f config NewClient (Suc n) (tr @ failed_attempt config (NewClient n))) = Some r"
  show "\<exists>i\<ge>n. client (NewClient i) \<noteq> None \<and> err (NewClient i) = None"
  proof (cases "client (NewClient n) \<noteq> None \<and> err (NewClient n) = None")
    case True
    then show ?thesis by blast
  next
    case False
    have "f config NewClient (Suc n) (tr @ failed_attempt config (NewClient n)) = Some r"
    proof (cases "client (NewClient n)")
      case None
      with unfolded show ?thesis by simp
    next
      case (Some h)
      with False obtain e where "err (NewClient n) = Some e" by auto
      with Some unfolded show ?thesis by simp
    qed
    then have "\<exists>i\<ge>Suc n. client (NewClient i) \<noteq> None \<and> err (NewClient i) = None"
      by (rule IH)
    then obtain i where "Suc n \<le> i"
        and "client (NewClient i) \<noteq> None \<and> err (NewClient i) = None"
      by blast
    then have "n \<le> i \<and> client (NewClient i) \<noteq> None \<and> err (NewClient i) = None"
      by simp
    then show ?thesis by blast
  qed
qed

lemma connect_loop_never:
  assumes "\<forall>i. \<not> (client (NewClient i) \<noteq> None \<and> err (NewClient i) = None)"
  shows "connect_loop config NewClient n tr = None"
proof (cases "connect_loop config NewClient n tr")
  case None
  then show ?thesis .
next
  case (Some r)
  from connect_loop_returns [OF this] assms show ?thesis by blast
qed

text \<open>
  Claim C7. The loop that waits for the brokers has no fatal outcome. When the attempt
  of number \<open>k\<close> is the first to give a client that is not \<^verbatim>\<open>nil\<close> and an error that
  is \<^verbatim>\<open>nil\<close>, the loop is left with that client, after it has, for each of the
  \<open>k\<close> failed attempts in turn, closed the client if there was one, printed the
  waiting line and slept one second (in nanoseconds below). When no attempt does, the
  loop is never left.
\<close>

theorem connect_loop_retries_until_connected:
  "(\<forall>k h. (\<forall>i<k. \<not> (client (NewClient i) \<noteq> None \<and> err (NewClient i) = None))
            \<and> client (NewClient k) = Some h \<and> err (NewClient k) = None \<longrightarrow>
      connect_loop config NewClient 0 []
        = Some (h, concat (map (\<lambda>i. (case client (NewClient i) of
                                         Some open_handle \<Rightarrow> [ClientClose open_handle] | None \<Rightarrow> [])
                                     @ [PrintWait (broker config) [broker config @ '':9092''],
                                        Sleep 1000000000])
                               [0..<k])))
   \<and> ((\<forall>i. \<not> (client (NewClient i) \<noteq> None \<and> err (NewClient i) = None)) \<longrightarrow>
        connect_loop config NewClient 0 [] = None)"
proof (intro conjI allI impI)
  fix k h
  assume a: "(\<forall>i<k. \<not> (client (NewClient i) \<noteq> None \<and> err (NewClient i) = None))
            \<and> client (NewClient k) = Some h \<and> err (NewClient k) = None"
  have "connect_loop config NewClient 0 []
      = Some (h, [] @ concat (map (\<lambda>i. failed_attempt config (NewClient i)) [0..<0 + k]))"
    using a by (intro connect_loop_first_success) auto
  then show "connect_loop config NewClient 0 []
        = Some (h, concat (map (\<lambda>i. (case client (NewClient i) of
                                         Some open_handle \<Rightarrow> [ClientClose open_handle] | None \<Rightarrow> [])
                                     @ [PrintWait (broker config) [broker config @ '':9092''],
                                        Sleep 1000000000])
                               [0..<k]))"
    by (simp add: failed_attempt_def brokers_def Second_ns)
next
  assume "\<forall>i. \<not> (client (NewClient i) \<noteq> None \<and> err (NewClient i) = None)"
  then show "connect_loop config NewClient 0 [] = None"
    by (rule connect_loop_never)
qed

theorem connect_loop_retries_until_connected_witness:
  "connect_loop \<lparr> gatewayURL = ''http://gateway:8080'', upstreamTimeout = 30000000000,
        topics = [''orders''], printResponse = False, rebuildInterval = 3000000000,
        broker = ''kafka'' \<rparr>
     (\<lambda>i. if i = 0 then \<lparr> client = Some 7, err = Some ''partial'' \<rparr>
          else if i = 1 then \<lparr> client = None, err = Some ''refused'' \<rparr>
          else \<lparr> client = Some 9, err = None \<rparr>) 0 []
     = Some (9, [ClientClose 7, PrintWait ''kafka'' [''kafka:9092''], Sleep 1000000000,
                 PrintWait ''kafka'' [''kafka:9092''], Sleep 1000000000])
   \<and> connect_loop \<lparr> gatewayURL = ''http://gateway:8080'', upstreamTimeout = 30000000000,
        topics = [''orders''], printResponse = False, rebuildInterval = 3000000000,
        broker = ''kafka'' \<rparr>
     (\<lambda>i. \<lparr> client = None, err = Some ''refused'' \<rparr>) 0 [] = None"
proof -
  let ?config = "\<lparr> gatewayURL = ''http://gateway:8080'', upstreamTimeout = 30000000000,
        topics = [''orders''], printResponse = False, rebuildInterval = 3000000000,
        broker = ''kafka'' \<rparr>"
  let ?N = "\<lambda>i::nat. if i = 0 then \<lparr> client = Some 7, err = Some ''partial'' \<rparr>
          else if i = 1 then \<lparr> client = None, err = Some ''refused'' \<rparr>
          else \<lparr> client = Some 9, err = None \<rparr>"
  let ?M = "\<lambda>i::nat. \<lparr> client = None :: nat option, err = Some ''refused'' \<rparr>"
  have two: "[0..<2] = [0, Suc 0]"
    by (simp add: upt_rec)
  have h: "(\<forall>i<2. \<not> (client (?N i) \<noteq> None \<and> err (?N i) = None))
            \<and> client (?N 2) = Some 9 \<and> err (?N 2) = None"
    by simp
  from connect_loop_retries_until_connected [of ?N ?config] h
  have 1: "connect_loop ?config ?N 0 []
        = Some (9, concat (map (\<lambda>i. (case client (?N i) of
                                         Some open_handle \<Rightarrow> [ClientClose open_handle] | None \<Rightarrow> [])
                                     @ [PrintWait (broker ?config) [broker ?config @ '':9092''],
                                        Sleep 1000000000])
                               [0..<2]))"
    by blast
  have n: "\<forall>i. \<not> (client (?M i) \<noteq> None \<and> err (?M i) = None)"
    by simp
  from connect_loop_retries_until_connected [of ?M ?config] n
  have 2: "connect_loop ?config ?M 0 [] = None"
    by blast
  from 1 2 show ?thesis
    by (simp add: two)
qed

section \<open>Properties of the topic map\<close>

text \<open>
  The sequential behaviour of the index, on the model written after the spec: after a
  \<^verbatim>\<open>Sync\<close> with the records \<open>subs\<close>, \<^verbatim>\<open>Match\<close> gives, for every topic, just the
  functions that have a record with that topic in \<open>subs\<close>, each once, whatever the index
  was before. That a \<^verbatim>\<open>Match\<close> running while another goroutine is within \<^verbatim>\<open>Sync\<close>
  sees one index or the other is a statement on the interleaving of the memory accesses
  of two goroutines, which the functions below do not have.
\<close>

lemma Match_NewTopicMap: "Match NewTopicMap t = []"
  by (simp add: Match_def NewTopicMap_def)

lemma set_Match_add_subscription:
  "set (Match (add_subscription m r) t)
     = set (Match m t) \<union> (if topic r = t then {functionIdentifier r} else {})"
  by (auto simp: add_subscription_def Match_def split: option.splits)

lemma distinct_Match_add_subscription:
  "distinct (Match m t) \<Longrightarrow> distinct (Match (add_subscription m r) t)"
  by (auto simp: add_subscription_def Match_def split: option.splits)

lemma Match_foldl_add_subscription:
  "set (Match (foldl add_subscription m subs) t)
     = set (Match m t) \<union> {functionIdentifier r | r. r \<in> set subs \<and> topic r = t}
   \<and> (distinct (Match m t) \<longrightarrow> distinct (Match (foldl add_subscription m subs) t))"
proof (induction subs arbitrary: m)
  case Nil
  show ?case by simp
next
  case (Cons r subs)
  have "set (Match (foldl add_subscription m (r # subs)) t)
      = set (Match (add_subscription m r) t)
        \<union> {functionIdentifier r' | r'. r' \<in> set subs \<and> topic r' = t}"
    using Cons.IH [of "add_subscription m r"] by simp
  also have "\<dots> = set (Match m t)
        \<union> {functionIdentifier r' | r'. r' \<in> set (r # subs) \<and> topic r' = t}"
    unfolding set_Match_add_subscription by auto
  finally have 1: "set (Match (foldl add_subscription m (r # subs)) t)
      = set (Match m t)
        \<union> {functionIdentifier r' | r'. r' \<in> set (r # subs) \<and> topic r' = t}" .
  have 2: "distinct (Match m t) \<longrightarrow> distinct (Match (foldl add_subscription m (r # subs)) t)"
    using Cons.IH [of "add_subscription m r"] distinct_Match_add_subscription [of m t r]
    by simp
  from 1 2 show ?case by blast
qed

lemma Match_Sync:
  "set (Match (Sync current subs) t) = {functionIdentifier r | r. r \<in> set subs \<and> topic r = t}
   \<and> distinct (Match (Sync current subs) t)"
  using Match_foldl_add_subscription [of Map.empty subs t]
  by (simp add: Sync_def Match_def)

lemma Sync_orders:
  "Match (Sync NewTopicMap orders_subs) ''orders'' = [''A'', ''B'']"
  by (simp add: Sync_def orders_subs_def add_subscription_def Match_def)

section \<open>Properties of the dispatch\<close>

text \<open>
  Every event of \<^verbatim>\<open>mcb\<close> is an event of the dispatch of its message, and none
  reports a message as received or marked.
\<close>

lemma received_append: "received (xs @ ys) = received xs @ received ys"
  by (simp add: received_def)

lemma marked_append: "marked (xs @ ys) = marked xs @ marked ys"
  by (simp add: marked_def)

lemma received_dispatch: "\<forall>ev \<in> set evs. is_dispatch ev \<Longrightarrow> received evs = []"
proof (induction evs)
  case Nil
  show ?case by (simp add: received_def)
next
  case (Cons ev evs)
  then have "received evs = []" by simp
  moreover from Cons.prems have "received_of ev = []" by (cases ev) auto
  ultimately show ?case by (simp add: received_def)
qed

lemma marked_dispatch: "\<forall>ev \<in> set evs. is_dispatch ev \<Longrightarrow> marked evs = []"
proof (induction evs)
  case Nil
  show ?case by (simp add: marked_def)
next
  case (Cons ev evs)
  then have "marked evs = []" by simp
  moreover from Cons.prems have "marked_of ev = []" by (cases ev) auto
  ultimately show ?case by (simp add: marked_def)
qed

lemma dispatch_of_is_dispatch: "dispatch_of msg ev \<Longrightarrow> is_dispatch ev"
  by (cases ev) simp_all

lemma response_log_dispatch: "\<forall>ev \<in> set (response_log config f res). dispatch_of msg ev"
  by (auto simp: response_log_def Let_def split: option.splits)

lemma invoke_matched_dispatch:
  "invoke_matched config net msg fs w = (e, w', evs) \<Longrightarrow> \<forall>ev \<in> set evs. dispatch_of msg ev"
proof (induction fs arbitrary: w e w' evs)
  case Nil
  then show ?case by simp
next
  case (Cons f fs)
  let ?url = "gatewayURL config @ ''/function/'' @ f"
  let ?req = "\<lparr> Method = ''POST'', URL = ?url, Body = Value msg \<rparr>"
  show ?case
  proof (cases "url_ok net ?url")
    case False
    with Cons.prems show ?thesis by auto
  next
    case True
    obtain r w1 where d: "Do net w ?req = (r, w1)" by (cases "Do net w ?req")
    show ?thesis
    proof (cases r)
      case (DoErr x)
      with Cons.prems True d show ?thesis by auto
    next
      case (DoRes res)
      obtain e2 w2 evs2 where i: "invoke_matched config net msg fs w1 = (e2, w2, evs2)"
        by (cases "invoke_matched config net msg fs w1")
      from Cons.IH [OF i] have "\<forall>ev \<in> set evs2. dispatch_of msg ev" .
      moreover from Cons.prems True d DoRes i
      have "evs = [LogInvoke f, HttpDo ?req] @ response_log config f res @ evs2"
        by simp
      ultimately show ?thesis
        using response_log_dispatch [of config f res msg] by auto
    qed
  qed
qed

lemma mcb_dispatch:
  "mcb config net current msg w = (e, w', evs) \<Longrightarrow> \<forall>ev \<in> set evs. dispatch_of msg ev"
  by (auto simp: mcb_def split: if_splits dest: invoke_matched_dispatch)

lemma mcb_is_dispatch:
  assumes "mcb config net current msg w = (e, w', evs)"
  shows "\<forall>ev \<in> set evs. is_dispatch ev"
proof -
  from mcb_dispatch [OF assms] have "\<forall>ev \<in> set evs. dispatch_of msg ev" .
  then show ?thesis by (auto dest: dispatch_of_is_dispatch)
qed

text \<open>
  When the URLs that \<^verbatim>\<open>mcb\<close> builds for the matched functions parse, \<^verbatim>\<open>mcb\<close>
  returns, whatever \<^verbatim>\<open>c.Do\<close> gives. When moreover \<^verbatim>\<open>c.Do\<close> gives no transport error,
  a message with a payload is posted once to each matched function, in the order of the
  match, at the URL of the function and with the payload as body.
\<close>

lemma invoke_matched_Returns:
  "\<forall>f \<in> set fs. url_ok net (gatewayURL config @ ''/function/'' @ f) \<Longrightarrow>
     fst (invoke_matched config net msg fs w) = Returns"
proof (induction fs arbitrary: w)
  case Nil
  show ?case by simp
next
  case (Cons f fs)
  let ?req = "\<lparr> Method = ''POST'', URL = gatewayURL config @ ''/function/'' @ f,
                Body = Value msg \<rparr>"
  from Cons.prems have u: "url_ok net (gatewayURL config @ ''/function/'' @ f)"
    and us: "\<forall>f \<in> set fs. url_ok net (gatewayURL config @ ''/function/'' @ f)"
    by simp_all
  obtain r w1 where d: "Do net w ?req = (r, w1)" by (cases "Do net w ?req")
  show ?case
  proof (cases r)
    case (DoErr x)
    with u d show ?thesis by simp
  next
    case (DoRes res)
    obtain e2 w2 evs2 where i: "invoke_matched config net msg fs w1 = (e2, w2, evs2)"
      by (cases "invoke_matched config net msg fs w1")
    with Cons.IH [OF us, of w1] have "e2 = Returns" by simp
    with u d DoRes i show ?thesis by simp
  qed
qed

lemma mcb_Returns:
  "\<forall>f \<in> set (Match current (Topic msg)). url_ok net (gatewayURL config @ ''/function/'' @ f) \<Longrightarrow>
     fst (mcb config net current msg w) = Returns"
  by (simp add: mcb_def invoke_matched_Returns)

lemma requests_append: "requests (xs @ ys) = requests xs @ requests ys"
  by (simp add: requests_def)

lemma requests_response_log: "requests (response_log config f res) = []"
  by (auto simp: response_log_def requests_def Let_def split: option.splits)

lemma invoke_matched_requests:
  assumes "\<forall>f \<in> set fs. url_ok net (gatewayURL config @ ''/function/'' @ f)"
    and "\<forall>w req. \<exists>res w'. Do net w req = (DoRes res, w')"
  shows "requests (snd (snd (invoke_matched config net msg fs w)))
           = map (\<lambda>f. \<lparr> Method = ''POST'', URL = gatewayURL config @ ''/function/'' @ f,
                         Body = Value msg \<rparr>) fs"
  using assms(1)
proof (induction fs arbitrary: w)
  case Nil
  show ?case by (simp add: requests_def)
next
  case (Cons f fs)
  let ?req = "\<lparr> Method = ''POST'', URL = gatewayURL config @ ''/function/'' @ f,
                Body = Value msg \<rparr>"
  from Cons.prems have u: "url_ok net (gatewayURL config @ ''/function/'' @ f)"
    and us: "\<forall>f \<in> set fs. url_ok net (gatewayURL config @ ''/function/'' @ f)"
    by simp_all
  from assms(2) obtain res w1 where d: "Do net w ?req = (DoRes res, w1)" by blast
  obtain e2 w2 evs2 where i: "invoke_matched config net msg fs w1 = (e2, w2, evs2)"
    by (cases "invoke_matched config net msg fs w1")
  from Cons.IH [OF us, of w1] i
  have a: "concat (map requests_of evs2) = map (\<lambda>f. \<lparr> Method = ''POST'',
            URL = gatewayURL config @ ''/function/'' @ f, Body = Value msg \<rparr>) fs"
    by (simp add: requests_def)
  have b: "concat (map requests_of (response_log config f res)) = []"
    using requests_response_log [of config f res] by (simp add: requests_def)
  from u d i a b show ?case
    by (simp add: requests_def)
qed

lemma mcb_requests:
  assumes "\<forall>f \<in> set (Match current (Topic msg)).
             url_ok net (gatewayURL config @ ''/function/'' @ f)"
    and "\<forall>w req. \<exists>res w'. Do net w req = (DoRes res, w')"
    and "Value msg \<noteq> []"
  shows "requests (snd (snd (mcb config net current msg w)))
           = map (\<lambda>f. \<lparr> Method = ''POST'', URL = gatewayURL config @ ''/function/'' @ f,
                         Body = Value msg \<rparr>) (Match current (Topic msg))"
  using assms(3) invoke_matched_requests [OF assms(1,2)] by (simp add: mcb_def)

text \<open>
  Claim C1 says that a message with a payload, on a topic with the subscribers
  \<^verbatim>\<open>A\<close> and \<^verbatim>\<open>B\<close>, is posted to both, and that a transport error of one
  invocation does not prevent the others. With the index synced from the two records,
  \<^verbatim>\<open>Match\<close> gives \<^verbatim>\<open>A\<close> then \<^verbatim>\<open>B\<close>; when the gateway refuses the connection
  for \<^verbatim>\<open>A\<close>, \<^verbatim>\<open>mcb\<close> logs the error and returns (line 121): \<^verbatim>\<open>c.Do\<close> has been
  called once, and nothing is posted to \<^verbatim>\<open>B\<close>, which the gateway would have answered.
\<close>

theorem transport_error_ends_dispatch:
  "buildConnectorConfig (\<lambda>v. None) [''topics'' \<mapsto> ''orders''] = Inr orders_config
   \<and> Match (Sync NewTopicMap orders_subs) ''orders'' = [''A'', ''B'']
   \<and> mcb orders_config gateway_refusing_A (Sync NewTopicMap orders_subs) order_msg 0
       = (Returns, 1,
          [LogInvoke ''A'',
           HttpDo \<lparr> Method = ''POST'', URL = ''http://gateway:8080/function/A'',
                    Body = [1, 2] \<rparr>,
           LogInvalidResponse ''connection refused''])
   \<and> requests (snd (snd (mcb orders_config gateway_refusing_A
                             (Sync NewTopicMap orders_subs) order_msg 0)))
       = [\<lparr> Method = ''POST'', URL = ''http://gateway:8080/function/A'', Body = [1, 2] \<rparr>]
   \<and> Do gateway_refusing_A 1
        \<lparr> Method = ''POST'', URL = ''http://gateway:8080/function/B'', Body = [1, 2] \<rparr>
       = (DoRes \<lparr> StatusCode = 200, ResBody = Some (ReadAll [111, 107] None) \<rparr>, 2)"
proof -
  have 1: "buildConnectorConfig (\<lambda>v. None) [''topics'' \<mapsto> ''orders''] = Inr orders_config"
    by (simp add: buildConnectorConfig_def orders_config_def append_topic_def Second_ns)
  have 2: "mcb orders_config gateway_refusing_A (Sync NewTopicMap orders_subs) order_msg 0
       = (Returns, 1,
          [LogInvoke ''A'',
           HttpDo \<lparr> Method = ''POST'', URL = ''http://gateway:8080/function/A'',
                    Body = [1, 2] \<rparr>,
           LogInvalidResponse ''connection refused''])"
    by (simp add: mcb_def orders_config_def gateway_refusing_A_def order_msg_def Sync_orders)
  have 3: "Do gateway_refusing_A 1
        \<lparr> Method = ''POST'', URL = ''http://gateway:8080/function/B'', Body = [1, 2] \<rparr>
       = (DoRes \<lparr> StatusCode = 200, ResBody = Some (ReadAll [111, 107] None) \<rparr>, 2)"
    by (simp add: gateway_refusing_A_def)
  from 1 2 3 Sync_orders show ?thesis
    by (simp add: requests_def)
qed

text \<open>
  With \<^verbatim>\<open>printResponse\<close> false, no event of a dispatch, and so no event of a run,
  prints the body of a response.
\<close>

lemma response_log_quiet:
  "\<not> printResponse config \<Longrightarrow> \<forall>ev \<in> set (response_log config f res). \<not> prints_body ev"
  by (auto simp: response_log_def Let_def split: option.splits)

lemma invoke_matched_quiet:
  assumes "\<not> printResponse config"
  shows "\<forall>ev \<in> set (snd (snd (invoke_matched config net msg fs w))). \<not> prints_body ev"
proof (induction fs arbitrary: w)
  case Nil
  show ?case by simp
next
  case (Cons f fs)
  let ?url = "gatewayURL config @ ''/function/'' @ f"
  let ?req = "\<lparr> Method = ''POST'', URL = ?url, Body = Value msg \<rparr>"
  show ?case
  proof (cases "url_ok net ?url")
    case False
    then show ?thesis by simp
  next
    case True
    obtain r w1 where d: "Do net w ?req = (r, w1)" by (cases "Do net w ?req")
    show ?thesis
    proof (cases r)
      case (DoErr x)
      with True d show ?thesis by simp
    next
      case (DoRes res)
      obtain e2 w2 evs2 where i: "invoke_matched config net msg fs w1 = (e2, w2, evs2)"
        by (cases "invoke_matched config net msg fs w1")
      from Cons.IH [of w1] i have "\<forall>ev \<in> set evs2. \<not> prints_body ev" by simp
      with True d DoRes i response_log_quiet [OF assms, of f res] show ?thesis
        by auto
    qed
  qed
qed

lemma mcb_quiet:
  "\<not> printResponse config \<Longrightarrow>
     \<forall>ev \<in> set (snd (snd (mcb config net current msg w))). \<not> prints_body ev"
  by (simp add: mcb_def invoke_matched_quiet)

section \<open>Properties of the loops of the consumer\<close>

text \<open>
  A stopped process stays as it is, so a run over two lists of inputs is the run over
  the second after the run over the first.
\<close>

lemma run_stopped: "status p \<noteq> Running \<Longrightarrow> run config net ins p = p"
  by (cases ins) simp_all

lemma run_append: "run config net (xs @ ys) p = run config net ys (run config net xs p)"
proof (induction xs arbitrary: p)
  case Nil
  show ?case by simp
next
  case (Cons i xs)
  show ?case
  proof (cases "status p = Running")
    case True
    with Cons show ?thesis by simp
  next
    case False
    then show ?thesis by (simp add: run_stopped)
  qed
qed

lemma run_Running: "status (run config net ins p) = Running \<Longrightarrow> status p = Running"
  by (cases "status p = Running") (simp_all add: run_stopped)

lemma receive_Some:
  assumes "mcb config net (topicMap p) msg (world p) = (e, w, evs)"
  shows "trace (receive config net (Some msg) p)
           = trace p @ [PrintReceived ((num p + 1) mod MaxInt32) msg] @ evs
             @ (if e = Returns then [MarkOffset msg []] else [])"
    and "status (receive config net (Some msg) p) = (if e = Returns then status p else Panicked)"
  using assms by (cases e; simp add: receive_def Let_def)+

text \<open>
  The order of dispatch and mark is kept by every step of a process in which every
  message received is marked.
\<close>

lemma ordered_snoc:
  assumes "ordered tr"
    and "\<And>msg metadata. ev = MarkOffset msg metadata \<Longrightarrow> received tr = marked tr @ [msg]"
    and "is_dispatch ev \<Longrightarrow> \<exists>msg. received tr = marked tr @ [msg] \<and> dispatch_of msg ev"
  shows "ordered (tr @ [ev])"
  unfolding ordered_def
proof (intro allI impI)
  fix pre e post
  assume split: "tr @ [ev] = pre @ e # post"
  show "(\<forall>msg metadata. e = MarkOffset msg metadata \<longrightarrow> received pre = marked pre @ [msg])
        \<and> (is_dispatch e \<longrightarrow> (\<exists>msg. received pre = marked pre @ [msg] \<and> dispatch_of msg e))"
  proof (cases post rule: rev_cases)
    case Nil
    with split have "pre = tr" "e = ev" by auto
    with assms(2,3) show ?thesis by blast
  next
    case (snoc post' x)
    with split have "tr = pre @ e # post'" by auto
    with assms(1) show ?thesis unfolding ordered_def by blast
  qed
qed

lemma ordered_append_dispatch:
  "ordered tr \<Longrightarrow> received tr = marked tr @ [msg] \<Longrightarrow>
   \<forall>ev \<in> set evs. dispatch_of msg ev \<Longrightarrow> ordered (tr @ evs)"
proof (induction evs arbitrary: tr)
  case Nil
  then show ?case by simp
next
  case (Cons ev evs)
  from Cons.prems have d: "dispatch_of msg ev" by simp
  then have "is_dispatch ev" by (rule dispatch_of_is_dispatch)
  then have no: "received [ev] = []" "marked [ev] = []"
    by (simp_all add: received_dispatch marked_dispatch)
  have "ordered (tr @ [ev])"
  proof (rule ordered_snoc)
    show "ordered tr" by (rule Cons.prems(1))
    show "received tr = marked tr @ [m]" if "ev = MarkOffset m metadata" for m metadata
      using that d by simp
    show "\<exists>m. received tr = marked tr @ [m] \<and> dispatch_of m ev"
      using Cons.prems(2) d by blast
  qed
  moreover have "received (tr @ [ev]) = marked (tr @ [ev]) @ [msg]"
    using Cons.prems(2) no by (simp add: received_append marked_append)
  moreover from Cons.prems have "\<forall>ev \<in> set evs. dispatch_of msg ev" by simp
  ultimately have "ordered ((tr @ [ev]) @ evs)" by (rule Cons.IH)
  then show ?case by simp
qed

lemma ordered_note:
  assumes "ordered tr" and "\<not> is_dispatch ev" and "marked_of ev = []"
  shows "ordered (tr @ [ev])"
proof (rule ordered_snoc)
  show "ordered tr" by (rule assms(1))
  show "received tr = marked tr @ [msg]" if "ev = MarkOffset msg metadata" for msg metadata
    using that assms(3) by simp
  show "\<exists>msg. received tr = marked tr @ [msg] \<and> dispatch_of msg ev" if "is_dispatch ev"
    using that assms(2) by simp
qed

lemma ordered_Nil: "ordered []"
  by (simp add: ordered_def)

lemma ordered_single: "\<not> is_dispatch ev \<Longrightarrow> marked_of ev = [] \<Longrightarrow> ordered [ev]"
  using ordered_note [OF ordered_Nil, of ev] by simp

lemma ordered_reading:
  assumes "ordered tr" and "tr = pre @ ev # post"
  shows "(\<forall>msg metadata. ev = MarkOffset msg metadata \<longrightarrow> received pre = marked pre @ [msg])
         \<and> (is_dispatch ev \<longrightarrow>
              (\<exists>msg. received pre = marked pre @ [msg]
                     \<and> (\<forall>req. ev = HttpDo req \<longrightarrow> Body req = Value msg)))"
proof -
  from assms have 1:
    "\<forall>msg metadata. ev = MarkOffset msg metadata \<longrightarrow> received pre = marked pre @ [msg]"
    and 2: "is_dispatch ev \<longrightarrow> (\<exists>msg. received pre = marked pre @ [msg] \<and> dispatch_of msg ev)"
    unfolding ordered_def by blast+
  have "\<exists>msg. received pre = marked pre @ [msg]
              \<and> (\<forall>req. ev = HttpDo req \<longrightarrow> Body req = Value msg)"
    if "is_dispatch ev"
  proof -
    from 2 that obtain msg where m: "received pre = marked pre @ [msg]" "dispatch_of msg ev"
      by blast
    from m(2) have "\<forall>req. ev = HttpDo req \<longrightarrow> Body req = Value msg"
      by auto
    with m(1) show ?thesis by blast
  qed
  with 1 show ?thesis by blast
qed

lemma ordered_message:
  assumes o: "ordered tr" and b: "marked tr = received tr"
    and d: "\<forall>ev \<in> set evs. dispatch_of msg ev"
  shows "ordered (tr @ [PrintReceived n msg] @ evs)"
    and "ordered (tr @ [PrintReceived n msg] @ evs @ [MarkOffset msg metadata])"
proof -
  let ?tr1 = "tr @ [PrintReceived n msg]"
  from d have "\<forall>ev \<in> set evs. is_dispatch ev"
    using dispatch_of_is_dispatch by blast
  then have rd: "received evs = []" and md: "marked evs = []"
    by (simp_all add: received_dispatch marked_dispatch)
  have o1: "ordered ?tr1"
    using o by (rule ordered_note) simp_all
  have "received [PrintReceived n msg] = [msg]" "marked [PrintReceived n msg] = []"
    by (simp_all add: received_def marked_def)
  with b have r1: "received ?tr1 = marked ?tr1 @ [msg]"
    by (simp add: received_append marked_append)
  from o1 r1 d have o2: "ordered (?tr1 @ evs)"
    by (rule ordered_append_dispatch)
  then show "ordered (tr @ [PrintReceived n msg] @ evs)" by simp
  have r2: "received (?tr1 @ evs) = marked (?tr1 @ evs) @ [msg]"
    unfolding received_append [of ?tr1 evs] marked_append [of ?tr1 evs] rd md
    using r1 by simp
  have "ordered ((?tr1 @ evs) @ [MarkOffset msg metadata])"
  proof (rule ordered_snoc)
    show "ordered (?tr1 @ evs)" by (rule o2)
    show "received (?tr1 @ evs) = marked (?tr1 @ evs) @ [m]"
      if "MarkOffset msg metadata = MarkOffset m md" for m md
      using that r2 by simp
    show "\<exists>m. received (?tr1 @ evs) = marked (?tr1 @ evs) @ [m]
            \<and> dispatch_of m (MarkOffset msg metadata)"
      if "is_dispatch (MarkOffset msg metadata)"
      using that by simp
  qed
  then show "ordered (tr @ [PrintReceived n msg] @ evs @ [MarkOffset msg metadata])" by simp
qed

lemma step_ordered:
  assumes o: "ordered (trace p)" and b: "marked (trace p) = received (trace p)"
  shows "ordered (trace (step config net i p))"
proof (cases i)
  case (Tick built)
  show ?thesis
  proof (cases built)
    case (Inl e)
    with Tick o show ?thesis by (simp add: refresh_def)
  next
    case (Inr lookups)
    have "ordered (trace p @ [LogSyncing])"
      using o by (rule ordered_note) simp_all
    with Tick Inr show ?thesis by (simp add: refresh_def)
  qed
next
  case (Messages r)
  show ?thesis
  proof (cases r)
    case None
    with Messages o show ?thesis by (simp add: receive_def)
  next
    case (Some msg)
    obtain e w evs where m: "mcb config net (topicMap p) msg (world p) = (e, w, evs)"
      by (cases "mcb config net (topicMap p) msg (world p)")
    from mcb_dispatch [OF m] have d: "\<forall>ev \<in> set evs. dispatch_of msg ev" .
    from Messages Some receive_Some(1) [OF m] ordered_message [OF o b d]
    show ?thesis by (cases e) simp_all
  qed
next
  case (Errors x)
  have "ordered (trace p @ [PrintConsumerError x])"
    using o by (rule ordered_note) simp_all
  with Errors show ?thesis by simp
next
  case (Notifications x)
  have "ordered (trace p @ [PrintRebalanced x])"
    using o by (rule ordered_note) simp_all
  with Notifications show ?thesis by simp
qed

lemma step_received:
  "received (trace (step config net i p)) = received (trace p) @ delivered_of i"
proof (cases i)
  case (Tick built)
  then show ?thesis
    by (cases built) (simp_all add: refresh_def received_append, simp add: received_def)
next
  case (Messages r)
  show ?thesis
  proof (cases r)
    case None
    with Messages show ?thesis by (simp add: receive_def)
  next
    case (Some msg)
    obtain e w evs where m: "mcb config net (topicMap p) msg (world p) = (e, w, evs)"
      by (cases "mcb config net (topicMap p) msg (world p)")
    from mcb_is_dispatch [OF m] have "received evs = []"
      by (rule received_dispatch)
    with Messages Some receive_Some(1) [OF m] show ?thesis
      by (simp add: received_append) (simp add: received_def)
  qed
next
  case (Errors x)
  then show ?thesis by (simp add: received_append) (simp add: received_def)
next
  case (Notifications x)
  then show ?thesis by (simp add: received_append) (simp add: received_def)
qed

lemma step_marked:
  assumes "status (step config net i p) = Running"
  shows "marked (trace (step config net i p)) = marked (trace p) @ delivered_of i"
proof (cases i)
  case (Tick built)
  then show ?thesis
    by (cases built) (simp_all add: refresh_def marked_append, simp add: marked_def)
next
  case (Messages r)
  show ?thesis
  proof (cases r)
    case None
    with Messages show ?thesis by (simp add: receive_def)
  next
    case (Some msg)
    obtain e w evs where m: "mcb config net (topicMap p) msg (world p) = (e, w, evs)"
      by (cases "mcb config net (topicMap p) msg (world p)")
    from mcb_is_dispatch [OF m] have "marked evs = []"
      by (rule marked_dispatch)
    moreover from assms Messages Some receive_Some(2) [OF m] have "e = Returns"
      by (cases e) simp_all
    ultimately show ?thesis
      using Messages Some receive_Some(1) [OF m]
      by (simp add: marked_append) (simp add: marked_def)
  qed
next
  case (Errors x)
  then show ?thesis by (simp add: marked_append) (simp add: marked_def)
next
  case (Notifications x)
  then show ?thesis by (simp add: marked_append) (simp add: marked_def)
qed

lemma run_invariant:
  assumes "ordered (trace p)" and "marked (trace p) = received (trace p)"
  shows "ordered (trace (run config net ins p))
         \<and> (status (run config net ins p) = Running \<longrightarrow>
              marked (trace (run config net ins p)) = marked (trace p) @ delivered ins
              \<and> received (trace (run config net ins p)) = received (trace p) @ delivered ins)"
  using assms
proof (induction ins arbitrary: p)
  case Nil
  then show ?case by (simp add: delivered_def)
next
  case (Cons i ins)
  show ?case
  proof (cases "status p = Running")
    case False
    with Cons.prems show ?thesis by (simp add: run_stopped)
  next
    case True
    let ?q = "step config net i p"
    have r: "run config net (i # ins) p = run config net ins ?q"
      using True by simp
    have oq: "ordered (trace ?q)"
      using Cons.prems by (rule step_ordered)
    show ?thesis
    proof (cases "status ?q = Running")
      case False
      with r oq show ?thesis by (simp add: run_stopped)
    next
      case qr: True
      have mq: "marked (trace ?q) = marked (trace p) @ delivered_of i"
        using qr by (rule step_marked)
      have rq: "received (trace ?q) = received (trace p) @ delivered_of i"
        by (rule step_received)
      from mq rq Cons.prems(2) have "marked (trace ?q) = received (trace ?q)" by simp
      from Cons.IH [OF oq this] mq rq r show ?thesis
        by (simp add: delivered_def)
    qed
  qed
qed

text \<open>
  A message received by a running process, when the URLs of the functions matched for
  its topic parse, is dispatched and then marked, and the process keeps running,
  whatever \<^verbatim>\<open>c.Do\<close> gives: a transport error, a status that is not 2xx or a body that
  cannot be read does not skip the mark.
\<close>

lemma receive_marks:
  assumes "status p = Running"
    and "\<forall>f \<in> set (Match (topicMap p) (Topic msg)).
           url_ok net (gatewayURL config @ ''/function/'' @ f)"
  shows "status (run config net [Messages (Some msg)] p) = Running
         \<and> (\<exists>evs. trace (run config net [Messages (Some msg)] p)
                     = trace p @ [PrintReceived ((num p + 1) mod MaxInt32) msg] @ evs
                       @ [MarkOffset msg []]
                   \<and> (\<forall>ev \<in> set evs. dispatch_of msg ev))"
proof -
  obtain e w evs where m: "mcb config net (topicMap p) msg (world p) = (e, w, evs)"
    by (cases "mcb config net (topicMap p) msg (world p)")
  from mcb_Returns [OF assms(2), of "world p"] m have e: "e = Returns" by simp
  from mcb_dispatch [OF m] have d: "\<forall>ev \<in> set evs. dispatch_of msg ev" .
  from assms(1) e receive_Some [OF m]
  have "status (run config net [Messages (Some msg)] p) = Running"
    and "trace (run config net [Messages (Some msg)] p)
           = trace p @ [PrintReceived ((num p + 1) mod MaxInt32) msg] @ evs @ [MarkOffset msg []]"
    by simp_all
  with d show ?thesis by blast
qed

text \<open>
  A running process keeps running as long as no tick finds the registry failing and the
  URL of every function that a tick brings parses: the functions of the topic map are
  always among those.
\<close>

lemma step_Running:
  assumes "status p = Running"
    and "\<forall>t. \<forall>f \<in> set (Match (topicMap p) t). url_ok net (gatewayURL config @ ''/function/'' @ f)"
    and "\<forall>e. i \<noteq> Tick (Inl e)"
  shows "status (step config net i p) = Running"
proof (cases i)
  case (Tick built)
  with assms(1,3) show ?thesis by (cases built) (simp_all add: refresh_def)
next
  case (Messages r)
  show ?thesis
  proof (cases r)
    case None
    with Messages assms(1) show ?thesis by (simp add: receive_def)
  next
    case (Some msg)
    obtain e w evs where m: "mcb config net (topicMap p) msg (world p) = (e, w, evs)"
      by (cases "mcb config net (topicMap p) msg (world p)")
    from assms(2) have "\<forall>f \<in> set (Match (topicMap p) (Topic msg)).
        url_ok net (gatewayURL config @ ''/function/'' @ f)"
      by simp
    from mcb_Returns [OF this, of "world p"] m have "e = Returns" by simp
    with Messages Some assms(1) receive_Some(2) [OF m] show ?thesis by simp
  qed
next
  case (Errors x)
  with assms(1) show ?thesis by simp
next
  case (Notifications x)
  with assms(1) show ?thesis by simp
qed

lemma step_topicMap:
  assumes "\<forall>t. \<forall>f \<in> set (Match (topicMap p) t). G f"
    and "\<forall>lookups. i = Tick (Inr lookups) \<longrightarrow> (\<forall>r \<in> set lookups. G (functionIdentifier r))"
  shows "\<forall>t. \<forall>f \<in> set (Match (topicMap (step config net i p)) t). G f"
proof (cases i)
  case (Tick built)
  show ?thesis
  proof (cases built)
    case (Inl e)
    with Tick assms(1) show ?thesis by (simp add: refresh_def)
  next
    case (Inr lookups)
    with Tick assms(2) have g: "\<forall>r \<in> set lookups. G (functionIdentifier r)" by simp
    have "\<forall>t. \<forall>f \<in> set (Match (Sync (topicMap p) lookups) t). G f"
    proof (intro allI ballI)
      fix t f
      assume "f \<in> set (Match (Sync (topicMap p) lookups) t)"
      then have "f \<in> {functionIdentifier r | r. r \<in> set lookups \<and> topic r = t}"
        using Match_Sync [of "topicMap p" lookups t] by simp
      with g show "G f" by auto
    qed
    with Tick Inr show ?thesis by (simp add: refresh_def)
  qed
next
  case (Messages r)
  show ?thesis
  proof (cases r)
    case None
    with Messages assms(1) show ?thesis by (simp add: receive_def)
  next
    case (Some msg)
    obtain e w evs where m: "mcb config net (topicMap p) msg (world p) = (e, w, evs)"
      by (cases "mcb config net (topicMap p) msg (world p)")
    then have "topicMap (receive config net (Some msg) p) = topicMap p"
      by (cases e) (simp_all add: receive_def Let_def)
    with Messages Some assms(1) show ?thesis by simp
  qed
next
  case (Errors x)
  with assms(1) show ?thesis by simp
next
  case (Notifications x)
  with assms(1) show ?thesis by simp
qed

lemma run_stays_Running:
  "status p = Running \<Longrightarrow>
   \<forall>t. \<forall>f \<in> set (Match (topicMap p) t). url_ok net (gatewayURL config @ ''/function/'' @ f) \<Longrightarrow>
   \<forall>e. Tick (Inl e) \<notin> set ins \<Longrightarrow>
   \<forall>lookups. Tick (Inr lookups) \<in> set ins \<longrightarrow>
     (\<forall>r \<in> set lookups. url_ok net (gatewayURL config @ ''/function/'' @ functionIdentifier r)) \<Longrightarrow>
   status (run config net ins p) = Running"
proof (induction ins arbitrary: p)
  case Nil
  then show ?case by simp
next
  case (Cons i ins)
  let ?q = "step config net i p"
  from Cons.prems(3) have "\<forall>e. i \<noteq> Tick (Inl e)" by auto
  with Cons.prems(1,2) have q: "status ?q = Running"
    by (rule step_Running)
  from Cons.prems(4) have
    "\<forall>lookups. i = Tick (Inr lookups) \<longrightarrow>
       (\<forall>r \<in> set lookups. url_ok net (gatewayURL config @ ''/function/'' @ functionIdentifier r))"
    by simp
  with Cons.prems(2) have
    m: "\<forall>t. \<forall>f \<in> set (Match (topicMap ?q) t). url_ok net (gatewayURL config @ ''/function/'' @ f)"
    by (rule step_topicMap)
  from Cons.prems(3) have e: "\<forall>e. Tick (Inl e) \<notin> set ins" by auto
  from Cons.prems(4) have
    l: "\<forall>lookups. Tick (Inr lookups) \<in> set ins \<longrightarrow>
         (\<forall>r \<in> set lookups. url_ok net (gatewayURL config @ ''/function/'' @ functionIdentifier r))"
    by simp
  from q m e l have "status (run config net ins ?q) = Running"
    by (rule Cons.IH)
  with Cons.prems(1) show ?case by simp
qed

text \<open>
  In every run of \<^verbatim>\<open>makeConsumer\<close>: where the events mark a message, that message is
  the one received and not yet marked, every message received before it being marked
  already, in the same order; and where an event of a dispatch stands, just one message
  is received and not yet marked, and a request posted there has the payload of that
  message as its body. So the mark of a message comes after the whole of its dispatch
  and before the next message is taken. While the process runs, the messages received
  and the messages marked are both the messages that the channel delivered, in that
  order. The process runs as long as the consumer could be created, no tick finds the
  registry failing and the URL of every function that a tick brings parses.
\<close>

lemma dispatch_and_mark_in_order:
  "(\<forall>pre ev post. trace (makeConsumer config net NewConsumer_err ins w) = pre @ ev # post \<longrightarrow>
       (\<forall>msg metadata. ev = MarkOffset msg metadata \<longrightarrow> received pre = marked pre @ [msg])
       \<and> (is_dispatch ev \<longrightarrow>
            (\<exists>msg. received pre = marked pre @ [msg]
                   \<and> (\<forall>req. ev = HttpDo req \<longrightarrow> Body req = Value msg))))
   \<and> (status (makeConsumer config net NewConsumer_err ins w) = Running \<longrightarrow>
        received (trace (makeConsumer config net NewConsumer_err ins w)) = delivered ins
        \<and> marked (trace (makeConsumer config net NewConsumer_err ins w)) = delivered ins)
   \<and> (NewConsumer_err = None \<and> (\<forall>e. Tick (Inl e) \<notin> set ins)
        \<and> (\<forall>lookups. Tick (Inr lookups) \<in> set ins \<longrightarrow>
              (\<forall>r \<in> set lookups.
                 url_ok net (gatewayURL config @ ''/function/'' @ functionIdentifier r))) \<longrightarrow>
        status (makeConsumer config net NewConsumer_err ins w) = Running)"
proof -
  let ?P = "makeConsumer config net NewConsumer_err ins w"
  let ?p0 = "\<lparr> topicMap = NewTopicMap, num = 0, world = w,
               trace = [LogBinding (topics config)], status = Running \<rparr>"
  let ?K = "NewConsumer_err = None \<and> (\<forall>e. Tick (Inl e) \<notin> set ins)
        \<and> (\<forall>lookups. Tick (Inr lookups) \<in> set ins \<longrightarrow>
              (\<forall>r \<in> set lookups.
                 url_ok net (gatewayURL config @ ''/function/'' @ functionIdentifier r)))"
  have o0: "ordered (trace ?p0)"
    by (simp add: ordered_single)
  have b0: "marked (trace ?p0) = received (trace ?p0)"
    by (simp add: marked_def received_def)
  have e0: "marked (trace ?p0) = []" "received (trace ?p0) = []"
    by (simp_all add: marked_def received_def)
  have "ordered (trace ?P)
        \<and> (status ?P = Running \<longrightarrow>
             received (trace ?P) = delivered ins \<and> marked (trace ?P) = delivered ins)
        \<and> (?K \<longrightarrow> status ?P = Running)"
  proof (cases NewConsumer_err)
    case (Some x)
    then have t: "trace ?P = trace ?p0" and s: "status ?P \<noteq> Running"
      by (simp_all add: makeConsumer_def makeConsumer_setup_def)
    from o0 have "ordered (trace ?P)"
      unfolding t .
    with s Some show ?thesis by simp
  next
    case None
    then have m: "?P = run config net ins ?p0"
      by (simp add: makeConsumer_def makeConsumer_setup_def)
    from run_invariant [OF o0 b0, of config net ins]
    have 1: "ordered (trace (run config net ins ?p0))"
      and 2: "status (run config net ins ?p0) = Running \<longrightarrow>
              marked (trace (run config net ins ?p0)) = delivered ins
              \<and> received (trace (run config net ins ?p0)) = delivered ins"
      using e0 by simp_all
    have 3: "status (run config net ins ?p0) = Running" if k: ?K
    proof (rule run_stays_Running)
      show "status ?p0 = Running" by simp
      show "\<forall>t. \<forall>f \<in> set (Match (topicMap ?p0) t).
              url_ok net (gatewayURL config @ ''/function/'' @ f)"
        by (simp add: Match_NewTopicMap)
      from k show "\<forall>e. Tick (Inl e) \<notin> set ins" by blast
      from k show "\<forall>lookups. Tick (Inr lookups) \<in> set ins \<longrightarrow>
              (\<forall>r \<in> set lookups.
                 url_ok net (gatewayURL config @ ''/function/'' @ functionIdentifier r))"
        by blast
    qed
    from 1 2 3 show ?thesis
      unfolding m by simp
  qed
  then have o: "ordered (trace ?P)"
    and r: "status ?P = Running \<longrightarrow>
             received (trace ?P) = delivered ins \<and> marked (trace ?P) = delivered ins"
    and k: "?K \<longrightarrow> status ?P = Running"
    by simp_all
  have a: "\<forall>pre ev post. trace ?P = pre @ ev # post \<longrightarrow>
       (\<forall>msg metadata. ev = MarkOffset msg metadata \<longrightarrow> received pre = marked pre @ [msg])
       \<and> (is_dispatch ev \<longrightarrow>
            (\<exists>msg. received pre = marked pre @ [msg]
                   \<and> (\<forall>req. ev = HttpDo req \<longrightarrow> Body req = Value msg)))"
  proof (intro allI impI)
    fix pre ev post
    assume "trace ?P = pre @ ev # post"
    with o show "(\<forall>msg metadata. ev = MarkOffset msg metadata \<longrightarrow> received pre = marked pre @ [msg])
       \<and> (is_dispatch ev \<longrightarrow>
            (\<exists>msg. received pre = marked pre @ [msg]
                   \<and> (\<forall>req. ev = HttpDo req \<longrightarrow> Body req = Value msg)))"
      by (rule ordered_reading)
  qed
  from a r k show ?thesis
    by (intro conjI) assumption+
qed

lemma step_quiet:
  assumes "\<not> printResponse config" and "\<forall>ev \<in> set (trace p). \<not> prints_body ev"
  shows "\<forall>ev \<in> set (trace (step config net i p)). \<not> prints_body ev"
proof (cases i)
  case (Tick built)
  with assms(2) show ?thesis by (cases built) (simp_all add: refresh_def)
next
  case (Messages r)
  show ?thesis
  proof (cases r)
    case None
    with Messages assms(2) show ?thesis by (simp add: receive_def)
  next
    case (Some msg)
    obtain e w evs where m: "mcb config net (topicMap p) msg (world p) = (e, w, evs)"
      by (cases "mcb config net (topicMap p) msg (world p)")
    with mcb_quiet [OF assms(1), of net "topicMap p" msg "world p"]
    have "\<forall>ev \<in> set evs. \<not> prints_body ev" by simp
    with Messages Some assms(2) receive_Some(1) [OF m] show ?thesis by auto
  qed
next
  case (Errors x)
  with assms(2) show ?thesis by simp
next
  case (Notifications x)
  with assms(2) show ?thesis by simp
qed

lemma run_quiet:
  "\<not> printResponse config \<Longrightarrow> \<forall>ev \<in> set (trace p). \<not> prints_body ev \<Longrightarrow>
     \<forall>ev \<in> set (trace (run config net ins p)). \<not> prints_body ev"
proof (induction ins arbitrary: p)
  case Nil
  then show ?case by simp
next
  case (Cons i ins)
  show ?case
  proof (cases "status p = Running")
    case False
    with Cons.prems(2) show ?thesis by simp
  next
    case True
    from Cons.prems have "\<forall>ev \<in> set (trace (step config net i p)). \<not> prints_body ev"
      by (rule step_quiet)
    with Cons.prems(1) have
      "\<forall>ev \<in> set (trace (run config net ins (step config net i p))). \<not> prints_body ev"
      by (rule Cons.IH)
    with True show ?thesis by simp
  qed
qed

lemma makeConsumer_quiet:
  assumes "\<not> printResponse config"
  shows "\<forall>ev \<in> set (trace (makeConsumer config net NewConsumer_err ins w)). \<not> prints_body ev"
proof (cases NewConsumer_err)
  case None
  let ?p0 = "\<lparr> topicMap = NewTopicMap, num = 0, world = w,
               trace = [LogBinding (topics config)], status = Running \<rparr>"
  have "\<forall>ev \<in> set (trace ?p0). \<not> prints_body ev" by simp
  with assms have "\<forall>ev \<in> set (trace (run config net ins ?p0)). \<not> prints_body ev"
    by (rule run_quiet)
  with None show ?thesis
    by (simp add: makeConsumer_def makeConsumer_setup_def)
next
  case (Some x)
  then show ?thesis
    by (simp add: makeConsumer_def makeConsumer_setup_def)
qed

text \<open>
  The run of the small deployment: a refresh, a message that \<^verbatim>\<open>A\<close> refuses, an
  error of the consumer, a message without payload, a receive on the closed channel, a
  message on a topic without subscriber; and the same run behind the parser that
  refuses the URL of \<^verbatim>\<open>%zz\<close>, which no step of this run builds.
\<close>

lemma orders_run:
  "makeConsumer orders_config gateway_refusing_A None orders_inputs 0
     = \<lparr> topicMap = Sync NewTopicMap orders_subs, num = 3, world = 1,
         trace = [LogBinding [''orders''], LogSyncing,
                  PrintReceived 1 order_msg,
                  LogInvoke ''A'',
                  HttpDo \<lparr> Method = ''POST'', URL = ''http://gateway:8080/function/A'',
                           Body = [1, 2] \<rparr>,
                  LogInvalidResponse ''connection refused'',
                  MarkOffset order_msg [],
                  PrintConsumerError ''broker error'',
                  PrintReceived 2 empty_msg,
                  MarkOffset empty_msg [],
                  PrintReceived 3 shipping_msg,
                  MarkOffset shipping_msg []],
         status = Running \<rparr>"
proof -
  have s: "Sync NewTopicMap orders_subs ''orders'' = Some [''A'', ''B'']"
      "Sync NewTopicMap orders_subs ''shipping'' = None"
    by (simp_all add: Sync_def orders_subs_def add_subscription_def)
  have 1: "mcb orders_config gateway_refusing_A (Sync NewTopicMap orders_subs) order_msg 0
       = (Returns, 1,
          [LogInvoke ''A'',
           HttpDo \<lparr> Method = ''POST'', URL = ''http://gateway:8080/function/A'',
                    Body = [1, 2] \<rparr>,
           LogInvalidResponse ''connection refused''])"
    by (simp add: mcb_def orders_config_def gateway_refusing_A_def order_msg_def Match_def s)
  have 2: "mcb orders_config gateway_refusing_A (Sync NewTopicMap orders_subs) empty_msg calls
       = (Returns, calls, [])" for calls
    by (simp add: mcb_def empty_msg_def)
  have 3: "mcb orders_config gateway_refusing_A (Sync NewTopicMap orders_subs) shipping_msg calls
       = (Returns, calls, [])" for calls
    by (simp add: mcb_def shipping_msg_def Match_def s)
  have t: "topics orders_config = [''orders'']"
    by (simp add: orders_config_def)
  show ?thesis
    by (simp add: makeConsumer_def makeConsumer_setup_def orders_inputs_def refresh_def
        receive_def MaxInt32_def 1 2 3 t)
qed

lemma strict_run:
  "makeConsumer orders_config gateway_strict None orders_inputs 0
     = makeConsumer orders_config gateway_refusing_A None orders_inputs 0"
proof -
  have s: "Sync NewTopicMap orders_subs ''orders'' = Some [''A'', ''B'']"
      "Sync NewTopicMap orders_subs ''shipping'' = None"
    by (simp_all add: Sync_def orders_subs_def add_subscription_def)
  have 1: "mcb orders_config gateway_strict (Sync NewTopicMap orders_subs) order_msg 0
       = (Returns, 1,
          [LogInvoke ''A'',
           HttpDo \<lparr> Method = ''POST'', URL = ''http://gateway:8080/function/A'',
                    Body = [1, 2] \<rparr>,
           LogInvalidResponse ''connection refused''])"
    by (simp add: mcb_def orders_config_def gateway_strict_def gateway_refusing_A_def
        order_msg_def Match_def s)
  have 2: "mcb orders_config gateway_strict (Sync NewTopicMap orders_subs) empty_msg calls
       = (Returns, calls, [])" for calls
    by (simp add: mcb_def empty_msg_def)
  have 3: "mcb orders_config gateway_strict (Sync NewTopicMap orders_subs) shipping_msg calls
       = (Returns, calls, [])" for calls
    by (simp add: mcb_def shipping_msg_def Match_def s)
  have t: "topics orders_config = [''orders'']"
    by (simp add: orders_config_def)
  have "makeConsumer orders_config gateway_strict None orders_inputs 0
     = \<lparr> topicMap = Sync NewTopicMap orders_subs, num = 3, world = 1,
         trace = [LogBinding [''orders''], LogSyncing,
                  PrintReceived 1 order_msg,
                  LogInvoke ''A'',
                  HttpDo \<lparr> Method = ''POST'', URL = ''http://gateway:8080/function/A'',
                           Body = [1, 2] \<rparr>,
                  LogInvalidResponse ''connection refused'',
                  MarkOffset order_msg [],
                  PrintConsumerError ''broker error'',
                  PrintReceived 2 empty_msg,
                  MarkOffset empty_msg [],
                  PrintReceived 3 shipping_msg,
                  MarkOffset shipping_msg []],
         status = Running \<rparr>"
    by (simp add: makeConsumer_def makeConsumer_setup_def orders_inputs_def refresh_def
        receive_def MaxInt32_def 1 2 3 t)
  then show ?thesis by (simp add: orders_run)
qed

text \<open>
  Claim C3 says that every message received is marked once its dispatch has completed,
  in the order of receipt, and that no failure of a dispatch skips the mark. With the
  functions \<^verbatim>\<open>B\<close> and \<^verbatim>\<open>%zz\<close> subscribed to \<^verbatim>\<open>orders\<close>, a message on
  \<^verbatim>\<open>orders\<close> is posted to \<^verbatim>\<open>B\<close>; for \<^verbatim>\<open>%zz\<close> the URL does not parse,
  \<^verbatim>\<open>http.NewRequest\<close> returns \<^verbatim>\<open>nil\<close> with an error that line 115 drops, and line
  116 panics on the \<^verbatim>\<open>nil\<close> request. The message has been received and is never
  marked, and the message delivered after it is never received. With the same gateway
  and parser, the transport error of \<^verbatim>\<open>A\<close> in the run of the small deployment skips
  no mark.
\<close>

theorem unparsable_url_leaves_message_unmarked:
  "Match (Sync NewTopicMap escape_subs) ''orders'' = [''B'', ''%zz'']
   \<and> makeConsumer orders_config gateway_strict None escape_inputs 0
       = \<lparr> topicMap = Sync NewTopicMap escape_subs, num = 1, world = 1,
           trace = [LogBinding [''orders''], LogSyncing,
                    PrintReceived 1 order_msg,
                    LogInvoke ''B'',
                    HttpDo \<lparr> Method = ''POST'', URL = ''http://gateway:8080/function/B'',
                             Body = [1, 2] \<rparr>,
                    LogResponse 200 ''B'' None,
                    LogInvoke ''%zz''],
           status = Panicked \<rparr>
   \<and> delivered escape_inputs = [order_msg, shipping_msg]
   \<and> received (trace (makeConsumer orders_config gateway_strict None escape_inputs 0))
       = [order_msg]
   \<and> marked (trace (makeConsumer orders_config gateway_strict None escape_inputs 0)) = []
   \<and> status (makeConsumer orders_config gateway_strict None orders_inputs 0) = Running
   \<and> marked (trace (makeConsumer orders_config gateway_strict None orders_inputs 0))
       = [order_msg, empty_msg, shipping_msg]"
proof -
  have s: "Sync NewTopicMap escape_subs ''orders'' = Some [''B'', ''%zz'']"
    by (simp add: Sync_def escape_subs_def add_subscription_def)
  then have i: "Match (Sync NewTopicMap escape_subs) ''orders'' = [''B'', ''%zz'']"
    by (simp add: Match_def)
  have 1: "mcb orders_config gateway_strict (Sync NewTopicMap escape_subs) order_msg 0
       = (Panics, 1,
          [LogInvoke ''B'',
           HttpDo \<lparr> Method = ''POST'', URL = ''http://gateway:8080/function/B'',
                    Body = [1, 2] \<rparr>,
           LogResponse 200 ''B'' None,
           LogInvoke ''%zz''])"
    by (simp add: mcb_def orders_config_def gateway_strict_def gateway_refusing_A_def
        order_msg_def i response_log_def)
  have t: "topics orders_config = [''orders'']"
    by (simp add: orders_config_def)
  have r: "makeConsumer orders_config gateway_strict None escape_inputs 0
       = \<lparr> topicMap = Sync NewTopicMap escape_subs, num = 1, world = 1,
           trace = [LogBinding [''orders''], LogSyncing,
                    PrintReceived 1 order_msg,
                    LogInvoke ''B'',
                    HttpDo \<lparr> Method = ''POST'', URL = ''http://gateway:8080/function/B'',
                             Body = [1, 2] \<rparr>,
                    LogResponse 200 ''B'' None,
                    LogInvoke ''%zz''],
           status = Panicked \<rparr>"
    by (simp add: makeConsumer_def makeConsumer_setup_def escape_inputs_def refresh_def
        receive_def MaxInt32_def 1 t)
  have d: "delivered escape_inputs = [order_msg, shipping_msg]"
    by (simp add: delivered_def escape_inputs_def)
  have rm: "received (trace (makeConsumer orders_config gateway_strict None escape_inputs 0))
       = [order_msg]"
    "marked (trace (makeConsumer orders_config gateway_strict None escape_inputs 0)) = []"
    unfolding r by (simp_all add: received_def marked_def)
  have k: "status (makeConsumer orders_config gateway_strict None orders_inputs 0) = Running"
    "marked (trace (makeConsumer orders_config gateway_strict None orders_inputs 0))
       = [order_msg, empty_msg, shipping_msg]"
    unfolding strict_run orders_run by (simp_all add: marked_def)
  from i r d rm k show ?thesis
    by (intro conjI)
qed

text \<open>
  Claim C6. A message received by a running process with an empty payload, or on a
  topic that the index matches with no function, makes \<^verbatim>\<open>mcb\<close> return without an
  event and without a call of \<^verbatim>\<open>c.Do\<close>; the loop prints the message and marks its
  offset, and nothing else changes but \<^verbatim>\<open>num\<close>.
\<close>

theorem empty_or_unsubscribed_message_is_marked:
  assumes "status p = Running"
    and "Value msg = [] \<or> Match (topicMap p) (Topic msg) = []"
  shows "mcb config net (topicMap p) msg (world p) = (Returns, world p, [])
         \<and> run config net [Messages (Some msg)] p
             = p\<lparr> num := (num p + 1) mod MaxInt32,
                   trace := trace p @ [PrintReceived ((num p + 1) mod MaxInt32) msg,
                                       MarkOffset msg []] \<rparr>
         \<and> requests (trace (run config net [Messages (Some msg)] p)) = requests (trace p)
         \<and> marked (trace (run config net [Messages (Some msg)] p)) = marked (trace p) @ [msg]"
proof -
  from assms(2) have m: "mcb config net (topicMap p) msg (world p) = (Returns, world p, [])"
    by (auto simp: mcb_def)
  then have r: "run config net [Messages (Some msg)] p
             = p\<lparr> num := (num p + 1) mod MaxInt32,
                   trace := trace p @ [PrintReceived ((num p + 1) mod MaxInt32) msg,
                                       MarkOffset msg []] \<rparr>"
    using assms(1) by (simp add: receive_def Let_def)
  show ?thesis
    unfolding r using m by (simp add: requests_def marked_def)
qed

theorem empty_or_unsubscribed_message_is_marked_witness:
  "run orders_config gateway_refusing_A [Messages (Some empty_msg)]
       (started\<lparr> topicMap := Sync NewTopicMap orders_subs \<rparr>)
     = started\<lparr> topicMap := Sync NewTopicMap orders_subs, num := 1,
                trace := [PrintReceived 1 empty_msg, MarkOffset empty_msg []] \<rparr>
   \<and> run orders_config gateway_refusing_A [Messages (Some shipping_msg)]
       (started\<lparr> topicMap := Sync NewTopicMap orders_subs \<rparr>)
     = started\<lparr> topicMap := Sync NewTopicMap orders_subs, num := 1,
                trace := [PrintReceived 1 shipping_msg, MarkOffset shipping_msg []] \<rparr>"
proof -
  let ?p = "started\<lparr> topicMap := Sync NewTopicMap orders_subs \<rparr>"
  have r: "status ?p = Running"
    by (simp add: started_def)
  have e: "Value empty_msg = [] \<or> Match (topicMap ?p) (Topic empty_msg) = []"
    by (simp add: empty_msg_def)
  have s: "Value shipping_msg = [] \<or> Match (topicMap ?p) (Topic shipping_msg) = []"
    by (simp add: shipping_msg_def Match_def Sync_def orders_subs_def add_subscription_def)
  have n: "(num ?p + 1) mod MaxInt32 = 1" "trace ?p = []"
    by (simp_all add: started_def MaxInt32_def)
  from empty_or_unsubscribed_message_is_marked [OF r e, of orders_config gateway_refusing_A]
    empty_or_unsubscribed_message_is_marked [OF r s, of orders_config gateway_refusing_A]
  show ?thesis
    unfolding n by (simp add: started_def)
qed

text \<open>
  Claim C4. When \<^verbatim>\<open>Build\<close> fails at a tick of a running process, the process exits
  with \<^verbatim>\<open>log.Fatalln\<close>: the topic map and the events are those before the tick
  (\<^verbatim>\<open>Sync\<close> is not called, nothing is logged as synced), and no input after the
  tick, no further tick among them, has any effect.
\<close>

theorem build_failure_is_fatal:
  assumes "status (run config net before p) = Running"
  shows "run config net (before @ Tick (Inl e) # after) p
           = (run config net before p)\<lparr> status := Exited (Fatal [e]) \<rparr>
         \<and> status (run config net (before @ Tick (Inl e) # after) p) = Exited (Fatal [e])
         \<and> topicMap (run config net (before @ Tick (Inl e) # after) p)
             = topicMap (run config net before p)
         \<and> trace (run config net (before @ Tick (Inl e) # after) p)
             = trace (run config net before p)"
proof -
  let ?q = "run config net before p"
  have "run config net (before @ Tick (Inl e) # after) p
          = run config net (Tick (Inl e) # after) ?q"
    by (rule run_append)
  also have "\<dots> = run config net after (?q\<lparr> status := Exited (Fatal [e]) \<rparr>)"
    using assms by (simp add: refresh_def)
  also have "\<dots> = ?q\<lparr> status := Exited (Fatal [e]) \<rparr>"
    by (rule run_stopped) simp
  finally show ?thesis by simp
qed

theorem build_failure_is_fatal_witness:
  "status (run orders_config gateway_refusing_A
             [Tick (Inr orders_subs), Messages (Some order_msg)] started) = Running
   \<and> status (run orders_config gateway_refusing_A
               ([Tick (Inr orders_subs), Messages (Some order_msg)]
                @ Tick (Inl ''registry unreachable'')
                # [Tick (Inr []), Messages (Some shipping_msg)]) started)
       = Exited (Fatal [''registry unreachable''])
   \<and> topicMap (run orders_config gateway_refusing_A
                 ([Tick (Inr orders_subs), Messages (Some order_msg)]
                  @ Tick (Inl ''registry unreachable'')
                  # [Tick (Inr []), Messages (Some shipping_msg)]) started) ''orders''
       = Some [''A'', ''B'']
   \<and> marked (trace (run orders_config gateway_refusing_A
                 ([Tick (Inr orders_subs), Messages (Some order_msg)]
                  @ Tick (Inl ''registry unreachable'')
                  # [Tick (Inr []), Messages (Some shipping_msg)]) started))
       = [order_msg]"
proof -
  let ?before = "[Tick (Inr orders_subs), Messages (Some order_msg)]"
  let ?after = "[Tick (Inr []), Messages (Some shipping_msg)]"
  have s: "Sync NewTopicMap orders_subs ''orders'' = Some [''A'', ''B'']"
    by (simp add: Sync_def orders_subs_def add_subscription_def)
  have 1: "mcb orders_config gateway_refusing_A (Sync NewTopicMap orders_subs) order_msg 0
       = (Returns, 1,
          [LogInvoke ''A'',
           HttpDo \<lparr> Method = ''POST'', URL = ''http://gateway:8080/function/A'',
                    Body = [1, 2] \<rparr>,
           LogInvalidResponse ''connection refused''])"
    by (simp add: mcb_def orders_config_def gateway_refusing_A_def order_msg_def Match_def s)
  have b: "run orders_config gateway_refusing_A ?before started
      = \<lparr> topicMap = Sync NewTopicMap orders_subs, num = 1, world = 1,
          trace = [LogSyncing, PrintReceived 1 order_msg, LogInvoke ''A'',
                   HttpDo \<lparr> Method = ''POST'', URL = ''http://gateway:8080/function/A'',
                            Body = [1, 2] \<rparr>,
                   LogInvalidResponse ''connection refused'', MarkOffset order_msg []],
          status = Running \<rparr>"
    by (simp add: started_def refresh_def receive_def MaxInt32_def 1)
  then have r: "status (run orders_config gateway_refusing_A ?before started) = Running"
    by simp
  from build_failure_is_fatal [OF r, of "''registry unreachable''" ?after] b s
  show ?thesis
    by (simp add: marked_def)
qed

text \<open>
  Claim C9. Every configuration that \<^verbatim>\<open>buildConnectorConfig\<close> returns has
  \<^verbatim>\<open>printResponse\<close> false. For such a configuration the log of a response is the
  line with the status code and the function only (after the line for a read error, if
  any), and no event of \<^verbatim>\<open>mcb\<close>, nor of a run of \<^verbatim>\<open>makeConsumer\<close>, prints the
  body of a response.
\<close>

theorem response_body_never_logged:
  assumes "buildConnectorConfig ParseDuration env = Inr config"
  shows "printResponse config = False
         \<and> (\<forall>f res. response_log config f res
                      = (case ResBody res of
                           None \<Rightarrow> []
                         | Some body \<Rightarrow>
                             (case readErr body of Some e \<Rightarrow> [LogErrorReadingBody] | None \<Rightarrow> [])
                             @ [LogResponse (StatusCode res) f None]))
         \<and> (\<forall>net current msg w.
               \<forall>ev \<in> set (snd (snd (mcb config net current msg w))). \<not> prints_body ev)
         \<and> (\<forall>net NewConsumer_err ins w.
               \<forall>ev \<in> set (trace (makeConsumer config net NewConsumer_err ins w)).
                 \<not> prints_body ev)"
proof -
  from assms have p: "\<not> printResponse config"
    by (auto simp: buildConnectorConfig_def Let_def split: if_splits)
  then have "\<forall>f res. response_log config f res
                      = (case ResBody res of
                           None \<Rightarrow> []
                         | Some body \<Rightarrow>
                             (case readErr body of Some e \<Rightarrow> [LogErrorReadingBody] | None \<Rightarrow> [])
                             @ [LogResponse (StatusCode res) f None])"
    by (auto simp: response_log_def Let_def split: option.splits)
  with p mcb_quiet [OF p] makeConsumer_quiet [OF p] show ?thesis
    by blast
qed

theorem response_body_never_logged_witness:
  "buildConnectorConfig (\<lambda>v. None) [''topics'' \<mapsto> ''orders''] = Inr orders_config
   \<and> printResponse orders_config = False
   \<and> response_log orders_config ''B''
        \<lparr> StatusCode = 200, ResBody = Some (ReadAll [111, 107] None) \<rparr>
       = [LogResponse 200 ''B'' None]
   \<and> mcb orders_config gateway_refusing_A
        (Sync NewTopicMap [\<lparr> functionIdentifier = ''B'', topic = ''orders'' \<rparr>]) order_msg 0
       = (Returns, 1,
          [LogInvoke ''B'',
           HttpDo \<lparr> Method = ''POST'', URL = ''http://gateway:8080/function/B'',
                    Body = [1, 2] \<rparr>,
           LogResponse 200 ''B'' None])
   \<and> \<not> prints_body (LogResponse 200 ''B'' None)
   \<and> prints_body (LogResponse 200 ''B'' (Some ''ok''))"
proof -
  let ?index = "Sync NewTopicMap [\<lparr> functionIdentifier = ''B'', topic = ''orders'' \<rparr>]"
  have c: "buildConnectorConfig (\<lambda>v. None) [''topics'' \<mapsto> ''orders''] = Inr orders_config"
    by (simp add: buildConnectorConfig_def orders_config_def append_topic_def Second_ns)
  note th = response_body_never_logged [OF c]
  from th [THEN conjunct1] have 1: "printResponse orders_config = False" .
  from th [THEN conjunct2, THEN conjunct1, rule_format,
      of "''B''" "\<lparr> StatusCode = 200, ResBody = Some (ReadAll [111, 107] None) \<rparr>"]
  have 2: "response_log orders_config ''B''
        \<lparr> StatusCode = 200, ResBody = Some (ReadAll [111, 107] None) \<rparr>
       = [LogResponse 200 ''B'' None]"
    by simp
  have i: "Match ?index ''orders'' = [''B'']"
    by (simp add: Sync_def add_subscription_def Match_def)
  have 3: "mcb orders_config gateway_refusing_A ?index order_msg 0
       = (Returns, 1,
          [LogInvoke ''B'',
           HttpDo \<lparr> Method = ''POST'', URL = ''http://gateway:8080/function/B'',
                    Body = [1, 2] \<rparr>,
           LogResponse 200 ''B'' None])"
    by (simp add: mcb_def order_msg_def i)
      (simp add: orders_config_def gateway_refusing_A_def 2 [unfolded orders_config_def])
  from th [THEN conjunct2, THEN conjunct2, THEN conjunct1, rule_format,
      of "LogResponse 200 ''B'' None" gateway_refusing_A ?index order_msg 0]
  have 4: "\<not> prints_body (LogResponse 200 ''B'' None)"
    by (simp add: 3)
  from c 1 2 3 4 show ?thesis
    by simp
qed

end
